theory Spec2Isabelle
  imports Complex_Main
begin

section \<open>Numbers and loops\<close>

text \<open>
  The simulators and tests compute with JavaScript numbers. They are modelled here by
  real numbers (integer-valued quantities such as digit ranges, cycle and day counters
  by \<open>int\<close> or \<open>nat\<close>), so rounding error, \<open>NaN\<close> and infinities are outside the model.
  \<^verbatim>\<open>Math.round\<close> rounds to the nearest integer, a tie going up; the remainder operator
  \<^verbatim>\<open>%\<close> truncates the quotient towards zero.
\<close>

definition js_round :: "real \<Rightarrow> int" where
  "js_round x = \<lfloor>x + 1 / 2\<rfloor>"

definition js_trunc :: "real \<Rightarrow> int" where
  "js_trunc x = (if 0 \<le> x then \<lfloor>x\<rfloor> else \<lceil>x\<rceil>)"

definition js_rem :: "real \<Rightarrow> real \<Rightarrow> real" where
  "js_rem a b = a - b * of_int (js_trunc (a / b))"

text \<open>
  Reading an array past its end gives \<^verbatim>\<open>undefined\<close>, which is \<open>None\<close> here.
\<close>

definition js_index :: "'a list \<Rightarrow> nat \<Rightarrow> 'a option" where
  "js_index xs i = (if i < length xs then Some (xs ! i) else None)"

text \<open>
  A \<^verbatim>\<open>for\<close> loop whose body may leave the function early with an error: the body is run
  on each index in turn, threading the loop's variables, and the first error ends the run.
\<close>

fun forEachM :: "('i \<Rightarrow> 's \<Rightarrow> 'e + 's) \<Rightarrow> 'i list \<Rightarrow> 's \<Rightarrow> 'e + 's" where
  "forEachM body [] s = Inr s"
| "forEachM body (i # rest) s =
     (case body i s of Inl e \<Rightarrow> Inl e | Inr s' \<Rightarrow> forEachM body rest s')"

section \<open>Cumulative tables and the digit mapper\<close>

text \<open>
  \<^verbatim>\<open>buildCumulative\<close> and \<^verbatim>\<open>mapRandomToValue\<close> of the inventory page, which take the
  scale as an argument; the queue pages carry copies with the scale fixed at 100. The
  scale is an integer at every call (100 or 10), so the digit ranges are integers.
  The record field \<open>val\<close> is the source's \<^verbatim>\<open>value\<close>.
\<close>

record DistRow =
  val :: real
  probability :: real

record CumulativeRow = DistRow +
  cumulative :: real
  rangeStart :: int
  rangeEnd :: int

datatype error =
    AddAtLeastOneRow
  | ProbabilitiesMustSumTo1

definition tolerance :: real where
  "tolerance = 1 / 1000"

text \<open>The \<^verbatim>\<open>dist.map\<close> pass: \<open>s\<close> is the running sum before the row.\<close>

fun cumulate :: "real \<Rightarrow> DistRow list \<Rightarrow> CumulativeRow list" where
  "cumulate s [] = []"
| "cumulate s (row # rest) =
     (let s' = s + probability row
      in \<lparr>val = val row, probability = probability row, cumulative = s',
          rangeStart = 0, rangeEnd = 0\<rparr> # cumulate s' rest)"

text \<open>The \<^verbatim>\<open>rows.forEach\<close> pass: \<open>previousEnd\<close> is the range end of the row before.\<close>

fun assignRanges :: "int \<Rightarrow> int \<Rightarrow> CumulativeRow list \<Rightarrow> CumulativeRow list" where
  "assignRanges scale previousEnd [] = []"
| "assignRanges scale previousEnd (row # rest) =
     (let cumulativeScaled = js_round (cumulative row * of_int scale);
          start = previousEnd + 1;
          e = min scale cumulativeScaled
      in row\<lparr>rangeStart := start, rangeEnd := e\<rparr> # assignRanges scale e rest)"

definition buildCumulative :: "DistRow list \<Rightarrow> int \<Rightarrow> error + CumulativeRow list" where
  "buildCumulative distRows scale =
     (if distRows = [] then Inl AddAtLeastOneRow
      else let rows = cumulate 0 distRows;
               psum = foldl (\<lambda>s row. s + probability row) 0 distRows
           in if \<bar>psum - 1\<bar> > tolerance then Inl ProbabilitiesMustSumTo1
              else Inr (assignRanges scale 0 rows))"

definition inRange :: "real \<Rightarrow> CumulativeRow \<Rightarrow> bool" where
  "inRange normalized r \<longleftrightarrow>
     normalized \<ge> of_int (rangeStart r) \<and> normalized \<le> of_int (rangeEnd r)"

definition mapRandomToValue :: "real \<Rightarrow> CumulativeRow list \<Rightarrow> int \<Rightarrow> real option" where
  "mapRandomToValue rand ranges scale =
     (let normalized = (if rand = 0 then of_int scale else rand)
      in case find (inRange normalized) ranges of
           None \<Rightarrow> None
         | Some r \<Rightarrow> Some (val r))"

text \<open>
  The mapper applied to an array read: \<^verbatim>\<open>undefined\<close> compares false with every bound, so
  no row is found.
\<close>

definition mapDigit :: "real option \<Rightarrow> CumulativeRow list \<Rightarrow> int \<Rightarrow> real option" where
  "mapDigit rand ranges scale =
     (case rand of None \<Rightarrow> None | Some d \<Rightarrow> mapRandomToValue d ranges scale)"

text \<open>
  The data model's invariant of a distribution, and what it means for the ranges of a
  table to partition \<open>[1, scale]\<close>: every integer of the interval lies in exactly one
  row's range, the first range starts at 1, each later range starts right after the one
  before, and the last range ends at the scale.
\<close>

definition validDistribution :: "DistRow list \<Rightarrow> bool" where
  "validDistribution distRows \<longleftrightarrow>
     distRows \<noteq> [] \<and> \<bar>sum_list (map probability distRows) - 1\<bar> \<le> tolerance"

definition contains :: "int \<Rightarrow> CumulativeRow \<Rightarrow> bool" where
  "contains r row \<longleftrightarrow> rangeStart row \<le> r \<and> r \<le> rangeEnd row"

definition partitionsRange :: "CumulativeRow list \<Rightarrow> int \<Rightarrow> bool" where
  "partitionsRange rows scale \<longleftrightarrow>
     (\<forall>r. 1 \<le> r \<and> r \<le> scale \<longrightarrow> length (filter (contains r) rows) = 1) \<and>
     rangeStart (hd rows) = 1 \<and>
     (\<forall>i. Suc i < length rows \<longrightarrow> rangeStart (rows ! Suc i) = rangeEnd (rows ! i) + 1) \<and>
     rangeEnd (last rows) = scale"

text \<open>
  A digit of a random-digit stream as the pages expect it after parsing: a whole number
  from 1 to the scale (the parser has already turned 0 into the scale).
\<close>

definition integerDigit :: "int \<Rightarrow> real \<Rightarrow> bool" where
  "integerDigit scale d \<longleftrightarrow> of_int \<lfloor>d\<rfloor> = d \<and> 1 \<le> d \<and> d \<le> of_int scale"

section \<open>Errors of the simulation runs\<close>

text \<open>
  A run that calls \<^verbatim>\<open>setError\<close> and returns produces no ledger: it is the \<open>Inl\<close> result.
\<close>

datatype tableName =
  ArrivalTable | ServiceTable | Server1Table | Server2Table | DemandTable | LeadTimeTable

datatype runError =
    CustomersAtLeast1
  | TableError tableName error
  | NotEnoughArrivalDigits
  | NotEnoughServiceDigits
  | DigitsOutOfRange
  | DigitNotMapped
  | CyclesAndDaysAtLeast1
  | InitialInventoryNegative
  | LimitNotAboveReorderPoint
  | InitialOrderQuantityNegative
  | InitialOrderLeadTimeNegative
  | NotEnoughDemandDigits
  | DemandDigitsOutOfRange
  | LeadTimeDigitsOutOfRange
  | DemandDigitNotMapped
  | LeadTimeDigitNotMapped

section \<open>The single-server simulator\<close>

text \<open>
  The two queue pages each declare a \<^verbatim>\<open>SimulationRow\<close>; the fields they share are the
  record \<open>QueueRow\<close>, which each page's row extends with its own.
\<close>

record QueueRow =
  customer :: nat
  randArrival :: real
  interarrival :: real
  arrival :: real
  randService :: real
  waiting :: real
  timeInSystem :: real

record SingleServerRow = QueueRow +
  service :: real
  serviceStart :: real
  serviceEnd :: real
  idle :: real

text \<open>
  The body of the customer loop at index \<open>i\<close>; \<open>tbl\<close> holds the rows pushed so far, one
  per earlier customer.
\<close>

definition singleCustomer ::
  "CumulativeRow list \<Rightarrow> CumulativeRow list \<Rightarrow> real list \<Rightarrow> real list \<Rightarrow>
   nat \<Rightarrow> SingleServerRow list \<Rightarrow> runError + SingleServerRow list" where
  "singleCustomer arrivalRows serviceRows arrivalNums serviceNums i tbl =
     (let randArrival = (if i = 0 then Some 0 else js_index arrivalNums (i - 1));
          randService = js_index serviceNums i;
          interarrival = (if i = 0 then Some 0 else mapDigit randArrival arrivalRows 100);
          serviceTime = mapDigit randService serviceRows 100
      in case (randArrival, randService, interarrival, serviceTime) of
           (Some ra, Some rs, Some ia, Some st) \<Rightarrow>
             (let arrivalTime = (if i = 0 then 0 else arrival (tbl ! (i - 1)) + ia);
                  previousServiceEnd = (if i = 0 then 0 else serviceEnd (tbl ! (i - 1)));
                  serviceStart = max arrivalTime previousServiceEnd;
                  waiting = serviceStart - arrivalTime;
                  idle = serviceStart - previousServiceEnd;
                  serviceEnd = serviceStart + st;
                  timeInSystem = waiting + st
              in Inr (tbl @
                   [\<lparr>customer = i + 1, randArrival = ra, interarrival = ia,
                     arrival = arrivalTime, randService = rs, waiting = waiting,
                     timeInSystem = timeInSystem, service = st,
                     serviceStart = serviceStart, serviceEnd = serviceEnd, idle = idle\<rparr>]))
         | _ \<Rightarrow> Inl DigitNotMapped)"

definition SingleServerPage_runSimulation ::
  "real \<Rightarrow> DistRow list \<Rightarrow> DistRow list \<Rightarrow> real list \<Rightarrow> real list \<Rightarrow>
   runError + SingleServerRow list" where
  "SingleServerPage_runSimulation customerCount arrivalDist serviceDist arrivalNums serviceNums =
     (let count = \<lfloor>customerCount\<rfloor>
      in if count < 1 then Inl CustomersAtLeast1
         else (case buildCumulative arrivalDist 100 of
           Inl e \<Rightarrow> Inl (TableError ArrivalTable e)
         | Inr arrivalRows \<Rightarrow>
         (case buildCumulative serviceDist 100 of
           Inl e \<Rightarrow> Inl (TableError ServiceTable e)
         | Inr serviceRows \<Rightarrow>
           if int (length arrivalNums) < count - 1 then Inl NotEnoughArrivalDigits
           else if int (length serviceNums) < count then Inl NotEnoughServiceDigits
           else if list_ex (\<lambda>d. d < 1 \<or> d > 100) (arrivalNums @ serviceNums)
             then Inl DigitsOutOfRange
           else forEachM (singleCustomer arrivalRows serviceRows arrivalNums serviceNums)
                  [0..<nat count] [])))"

text \<open>
  The recurrence of the single-server ledger at row \<open>i\<close>, as the specification states it.
\<close>

definition ledgerRecurrence ::
  "CumulativeRow list \<Rightarrow> CumulativeRow list \<Rightarrow> real list \<Rightarrow> real list \<Rightarrow>
   SingleServerRow list \<Rightarrow> nat \<Rightarrow> bool" where
  "ledgerRecurrence arrivalRows serviceRows arrivalNums serviceNums tbl i \<longleftrightarrow>
     (let row = tbl ! i;
          previousServiceEnd = (if i = 0 then 0 else serviceEnd (tbl ! (i - 1)))
      in (if i = 0 then interarrival row = 0 \<and> arrival row = 0
          else mapRandomToValue (arrivalNums ! (i - 1)) arrivalRows 100 = Some (interarrival row) \<and>
               arrival row = arrival (tbl ! (i - 1)) + interarrival row) \<and>
         mapRandomToValue (serviceNums ! i) serviceRows 100 = Some (service row) \<and>
         serviceStart row = max (arrival row) previousServiceEnd \<and>
         waiting row = serviceStart row - arrival row \<and>
         idle row = serviceStart row - previousServiceEnd \<and>
         serviceEnd row = serviceStart row + service row \<and>
         timeInSystem row = waiting row + service row)"

section \<open>The multi-server simulator\<close>

datatype ServerId = Server1 | Server2

record MultiServerRow = QueueRow +
  service1 :: "real option"
  serviceStart1 :: "real option"
  serviceEnd1 :: "real option"
  service2 :: "real option"
  serviceStart2 :: "real option"
  serviceEnd2 :: "real option"
  idle1 :: real
  idle2 :: real
  serverUsed :: "ServerId option"

text \<open>The variables of a loop: the ledger pushed so far, extended by each simulator.\<close>

record 'row Ledger =
  table :: "'row list"

record MultiState = "MultiServerRow Ledger" +
  server1End :: real
  server2End :: real

text \<open>
  What the choice of a server sets: the local variables \<^verbatim>\<open>serverUsed\<close>,
  \<^verbatim>\<open>serviceTime\<close>, \<^verbatim>\<open>serviceStart\<close>, \<^verbatim>\<open>serviceEnd\<close>, \<^verbatim>\<open>waiting\<close>, \<^verbatim>\<open>idle1\<close>, \<^verbatim>\<open>idle2\<close> and the
  two busy-until clocks.
\<close>

record Assignment =
  chosen :: ServerId
  chosenTime :: real
  chosenStart :: real
  chosenEnd :: real
  chosenWaiting :: real
  chosenIdle1 :: real
  chosenIdle2 :: real
  nextServer1End :: real
  nextServer2End :: real

definition assignServer ::
  "ServerId \<Rightarrow> real \<Rightarrow> real \<Rightarrow> real \<Rightarrow> real \<Rightarrow> real \<Rightarrow> Assignment" where
  "assignServer priorityServer arrivalTime serviceTime1 serviceTime2 s1End s2End =
     (let server1Available = (arrivalTime \<ge> s1End);
          server2Available = (arrivalTime \<ge> s2End);
          prevServer1End = s1End;
          prevServer2End = s2End;
          idleServer1 =
            \<lparr>chosen = Server1, chosenTime = serviceTime1, chosenStart = arrivalTime,
             chosenEnd = arrivalTime + serviceTime1, chosenWaiting = 0,
             chosenIdle1 = max 0 (arrivalTime - prevServer1End), chosenIdle2 = 0,
             nextServer1End = arrivalTime + serviceTime1, nextServer2End = s2End\<rparr>;
          idleServer2 =
            \<lparr>chosen = Server2, chosenTime = serviceTime2, chosenStart = arrivalTime,
             chosenEnd = arrivalTime + serviceTime2, chosenWaiting = 0,
             chosenIdle1 = 0, chosenIdle2 = max 0 (arrivalTime - prevServer2End),
             nextServer1End = s1End, nextServer2End = arrivalTime + serviceTime2\<rparr>
      in if server1Available \<and> server2Available then
           (if priorityServer = Server1 then idleServer1 else idleServer2)
         else if server1Available then idleServer1
         else if server2Available then idleServer2
         else if s1End \<le> s2End then
           \<lparr>chosen = Server1, chosenTime = serviceTime1, chosenStart = s1End,
            chosenEnd = s1End + serviceTime1, chosenWaiting = s1End - arrivalTime,
            chosenIdle1 = 0, chosenIdle2 = 0,
            nextServer1End = s1End + serviceTime1, nextServer2End = s2End\<rparr>
         else
           \<lparr>chosen = Server2, chosenTime = serviceTime2, chosenStart = s2End,
            chosenEnd = s2End + serviceTime2, chosenWaiting = s2End - arrivalTime,
            chosenIdle1 = 0, chosenIdle2 = 0,
            nextServer1End = s1End, nextServer2End = s2End + serviceTime2\<rparr>)"

text \<open>The row pushed for customer \<open>i\<close>, from the digits, the mapped times and the choice.\<close>

definition multiRow ::
  "nat \<Rightarrow> real \<Rightarrow> real \<Rightarrow> real \<Rightarrow> real \<Rightarrow> real \<Rightarrow> real \<Rightarrow> Assignment \<Rightarrow> MultiServerRow" where
  "multiRow i ra rs ia arrivalTime st1 st2 a =
     \<lparr>customer = i + 1, randArrival = ra, interarrival = ia,
      arrival = arrivalTime, randService = rs, waiting = chosenWaiting a,
      timeInSystem = chosenWaiting a + chosenTime a,
      service1 = (if chosen a = Server1 then Some st1 else None),
      serviceStart1 = (if chosen a = Server1 then Some (chosenStart a) else None),
      serviceEnd1 = (if chosen a = Server1 then Some (chosenEnd a) else None),
      service2 = (if chosen a = Server2 then Some st2 else None),
      serviceStart2 = (if chosen a = Server2 then Some (chosenStart a) else None),
      serviceEnd2 = (if chosen a = Server2 then Some (chosenEnd a) else None),
      idle1 = chosenIdle1 a, idle2 = chosenIdle2 a,
      serverUsed = Some (chosen a)\<rparr>"

definition multiCustomer ::
  "ServerId \<Rightarrow> CumulativeRow list \<Rightarrow> CumulativeRow list \<Rightarrow> CumulativeRow list \<Rightarrow>
   real list \<Rightarrow> real list \<Rightarrow> nat \<Rightarrow> MultiState \<Rightarrow> runError + MultiState" where
  "multiCustomer priorityServer arrivalRows service1Rows service2Rows arrivalNums serviceNums
       i st =
     (let randArrival = (if i = 0 then Some 0 else js_index arrivalNums (i - 1));
          randService = js_index serviceNums i;
          interarrival = (if i = 0 then Some 0 else mapDigit randArrival arrivalRows 100);
          serviceTime1 = mapDigit randService service1Rows 100;
          serviceTime2 = mapDigit randService service2Rows 100
      in case (randArrival, randService, interarrival, serviceTime1, serviceTime2) of
           (Some ra, Some rs, Some ia, Some st1, Some st2) \<Rightarrow>
             (let arrivalTime = (if i = 0 then 0 else arrival (table st ! (i - 1)) + ia);
                  a = assignServer priorityServer arrivalTime st1 st2
                        (server1End st) (server2End st)
              in Inr (st\<lparr>table := table st @ [multiRow i ra rs ia arrivalTime st1 st2 a],
                       server1End := nextServer1End a, server2End := nextServer2End a\<rparr>))
         | _ \<Rightarrow> Inl DigitNotMapped)"

definition MultiServerPage_runSimulation ::
  "real \<Rightarrow> ServerId \<Rightarrow> DistRow list \<Rightarrow> DistRow list \<Rightarrow> DistRow list \<Rightarrow>
   real list \<Rightarrow> real list \<Rightarrow> runError + MultiServerRow list" where
  "MultiServerPage_runSimulation customerCount priorityServer arrivalDist service1Dist
       service2Dist arrivalNums serviceNums =
     (let count = \<lfloor>customerCount\<rfloor>
      in if count < 1 then Inl CustomersAtLeast1
         else (case buildCumulative arrivalDist 100 of
           Inl e \<Rightarrow> Inl (TableError ArrivalTable e)
         | Inr arrivalRows \<Rightarrow>
         (case buildCumulative service1Dist 100 of
           Inl e \<Rightarrow> Inl (TableError Server1Table e)
         | Inr service1Rows \<Rightarrow>
         (case buildCumulative service2Dist 100 of
           Inl e \<Rightarrow> Inl (TableError Server2Table e)
         | Inr service2Rows \<Rightarrow>
           if int (length arrivalNums) < count - 1 then Inl NotEnoughArrivalDigits
           else if int (length serviceNums) < count then Inl NotEnoughServiceDigits
           else if list_ex (\<lambda>d. d < 1 \<or> d > 100) (arrivalNums @ serviceNums)
             then Inl DigitsOutOfRange
           else (case forEachM (multiCustomer priorityServer arrivalRows service1Rows
                                  service2Rows arrivalNums serviceNums)
                        [0..<nat count] \<lparr>table = [], server1End = 0, server2End = 0\<rparr> of
                   Inl e \<Rightarrow> Inl e
                 | Inr st \<Rightarrow> Inr (table st))))))"

text \<open>
  The busy-until time of a server, read off a ledger: the end of the last service the
  ledger records for it, 0 when it has served nobody.
\<close>

definition busyUntil1 :: "MultiServerRow list \<Rightarrow> real" where
  "busyUntil1 rows = foldl (\<lambda>e row. case serviceEnd1 row of Some x \<Rightarrow> x | None \<Rightarrow> e) 0 rows"

definition busyUntil2 :: "MultiServerRow list \<Rightarrow> real" where
  "busyUntil2 rows = foldl (\<lambda>e row. case serviceEnd2 row of Some x \<Rightarrow> x | None \<Rightarrow> e) 0 rows"

text \<open>
  The assignment rule of the specification at row \<open>i\<close> of a ledger: \<open>e1\<close> and \<open>e2\<close> are the
  busy-until times of the two servers when customer \<open>i\<close> arrives.
\<close>

definition assignmentRule :: "ServerId \<Rightarrow> MultiServerRow list \<Rightarrow> nat \<Rightarrow> bool" where
  "assignmentRule priorityServer tbl i \<longleftrightarrow>
     (let row = tbl ! i;
          a = arrival row;
          e1 = busyUntil1 (take i tbl);
          e2 = busyUntil2 (take i tbl)
      in (e1 \<le> a \<and> e2 \<le> a \<longrightarrow> serverUsed row = Some priorityServer \<and> waiting row = 0) \<and>
         (e1 \<le> a \<and> a < e2 \<longrightarrow> serverUsed row = Some Server1 \<and> waiting row = 0) \<and>
         (a < e1 \<and> e2 \<le> a \<longrightarrow> serverUsed row = Some Server2 \<and> waiting row = 0) \<and>
         (a < e1 \<and> a < e2 \<longrightarrow>
            serverUsed row = Some (if e1 \<le> e2 then Server1 else Server2) \<and>
            (if e1 \<le> e2 then serviceStart1 row = Some e1 else serviceStart2 row = Some e2) \<and>
            waiting row = min e1 e2 - a))"

section \<open>The inventory simulator\<close>

record PendingOrder =
  quantity :: real
  arrivalCycle :: int
  arrivalDay :: real

record InventoryRow =
  cycle :: int
  day :: int
  beginningInventory :: real
  randDemand :: real
  demand :: real
  endingInventory :: real
  shortage :: real
  orderQuantity :: "real option"
  randLeadTime :: "real option"
  daysUntilArrival :: "real option"

record InventoryState = "InventoryRow Ledger" +
  inventory :: real
  pendingOrders :: "PendingOrder list"
  demandIndex :: nat
  leadTimeIndex :: nat

text \<open>The reorder point: one more than the rounded-up expected demand over the lead time.\<close>

definition reorderPoint :: "DistRow list \<Rightarrow> DistRow list \<Rightarrow> int" where
  "reorderPoint demandDist leadTimeDist =
     (if demandDist = [] \<or> leadTimeDist = [] then 3
      else let expectedDemand = foldl (\<lambda>s row. s + val row * probability row) 0 demandDist;
               expectedLeadTime = foldl (\<lambda>s row. s + val row * probability row) 0 leadTimeDist
           in \<lceil>expectedDemand * expectedLeadTime\<rceil> + 1)"

text \<open>The pending orders before the first day: the initial order, if it is specified.\<close>

definition initialPendingOrders :: "int \<Rightarrow> int \<Rightarrow> PendingOrder list" where
  "initialPendingOrders initOrderQty initOrderLead =
     (if initOrderQty > 0 \<and> initOrderLead > 0
      then [\<lparr>quantity = of_int initOrderQty, arrivalCycle = 1,
             arrivalDay = of_int (initOrderLead + 1)\<rparr>]
      else [])"

definition arrivesToday :: "int \<Rightarrow> int \<Rightarrow> PendingOrder \<Rightarrow> bool" where
  "arrivesToday c d order \<longleftrightarrow> arrivalCycle order = c \<and> arrivalDay order = of_int d"

text \<open>\<^verbatim>\<open>Math.min\<close> of the elements of a list; it is called on non-empty lists only.\<close>

fun minList :: "real list \<Rightarrow> real" where
  "minList [] = 0"
| "minList [x] = x"
| "minList (x # y # ys) = min x (minList (y # ys))"

text \<open>The days until the next arrival of this cycle, for display.\<close>

definition nextArrivalDisplay :: "int \<Rightarrow> int \<Rightarrow> PendingOrder list \<Rightarrow> real option" where
  "nextArrivalDisplay c d pending =
     (if pending \<noteq> [] then
        (let ordersThisCycle = filter (\<lambda>ord. arrivalCycle ord = c) pending
         in if ordersThisCycle \<noteq> [] then
              (let nextArrivalDay = minList (map arrivalDay ordersThisCycle)
               in Some (max 0 (nextArrivalDay - of_int d - 1)))
            else None)
      else None)"

text \<open>
  Step 1 of a day: the accumulated shortage is paid out of the inventory. The result is
  the inventory and the accumulated shortage after the step.
\<close>

definition settleBacklog :: "real \<Rightarrow> real \<Rightarrow> real \<times> real" where
  "settleBacklog stock accumulatedShortage =
     (if accumulatedShortage > 0 then
        (if stock \<ge> accumulatedShortage then (stock - accumulatedShortage, 0)
         else (0, accumulatedShortage - stock))
      else (stock, accumulatedShortage))"

text \<open>
  Step 2 of a day: the demand is served from the inventory. The result is the ending
  inventory and the accumulated shortage.
\<close>

definition satisfyDemand :: "real \<Rightarrow> real \<Rightarrow> real \<Rightarrow> real \<times> real" where
  "satisfyDemand stock demandToday accumulatedShortage =
     (if stock \<ge> demandToday then (stock - demandToday, accumulatedShortage)
      else (let unmetDemand = demandToday - stock
            in (0, accumulatedShortage + unmetDemand)))"

text \<open>
  The review at the end of a day: what it sets of the row (\<^verbatim>\<open>orderQuantity\<close>,
  \<^verbatim>\<open>randLeadTime\<close>, \<^verbatim>\<open>daysUntilNextArrival\<close>) and of the loop's variables (the pending
  orders and \<^verbatim>\<open>leadTimeIndex\<close>).
\<close>

record Review =
  reviewQuantity :: "real option"
  reviewRandLeadTime :: "real option"
  reviewDaysUntil :: "real option"
  reviewPending :: "PendingOrder list"
  reviewLeadTimeIndex :: nat

definition reviewOrder ::
  "int \<Rightarrow> int \<Rightarrow> CumulativeRow list \<Rightarrow> real list \<Rightarrow> int \<Rightarrow> int \<Rightarrow> real \<Rightarrow> real \<Rightarrow>
   real option \<Rightarrow> PendingOrder list \<Rightarrow> nat \<Rightarrow> runError + Review" where
  "reviewOrder days invLimit leadTimeRows leadTimeNums c d endingInv shortageNow
       daysUntilNextArrival pending ltIndex =
     (if d = days then
        (let orderQty = of_int invLimit - endingInv + shortageNow
         in if orderQty > 0 then
              (if ltIndex < length leadTimeNums then
                 (let randLT = leadTimeNums ! ltIndex
                  in case mapRandomToValue randLT leadTimeRows 10 of
                       None \<Rightarrow> Inl LeadTimeDigitNotMapped
                     | Some leadTimeDays \<Rightarrow>
                         (let currentAbsDay = (c - 1) * days + d;
                              arrivalAbsDay = of_int currentAbsDay + leadTimeDays + 1;
                              arrCycle = \<lceil>arrivalAbsDay / of_int days\<rceil>;
                              arrDay0 = js_rem arrivalAbsDay (of_int days);
                              arrDay = (if arrDay0 = 0 then of_int days else arrDay0)
                          in Inr \<lparr>reviewQuantity = Some orderQty,
                                  reviewRandLeadTime = Some randLT,
                                  reviewDaysUntil = Some leadTimeDays,
                                  reviewPending = pending @
                                    [\<lparr>quantity = orderQty, arrivalCycle = arrCycle,
                                      arrivalDay = arrDay\<rparr>],
                                  reviewLeadTimeIndex = ltIndex + 1\<rparr>))
               else Inr \<lparr>reviewQuantity = Some orderQty, reviewRandLeadTime = None,
                         reviewDaysUntil = daysUntilNextArrival, reviewPending = pending,
                         reviewLeadTimeIndex = ltIndex\<rparr>)
            else Inr \<lparr>reviewQuantity = Some orderQty, reviewRandLeadTime = None,
                      reviewDaysUntil = daysUntilNextArrival, reviewPending = pending,
                      reviewLeadTimeIndex = ltIndex\<rparr>)
      else Inr \<lparr>reviewQuantity = None, reviewRandLeadTime = None,
                reviewDaysUntil = daysUntilNextArrival, reviewPending = pending,
                reviewLeadTimeIndex = ltIndex\<rparr>)"

text \<open>The row pushed for a day.\<close>

definition inventoryRow ::
  "int \<Rightarrow> int \<Rightarrow> real \<Rightarrow> real \<Rightarrow> real \<Rightarrow> real \<Rightarrow> real \<Rightarrow> Review \<Rightarrow> InventoryRow" where
  "inventoryRow c d beginningInventoryForDisplay rd demandToday endingInv shortageNow rv =
     \<lparr>cycle = c, day = d, beginningInventory = beginningInventoryForDisplay,
      randDemand = rd, demand = demandToday, endingInventory = endingInv,
      shortage = shortageNow, orderQuantity = reviewQuantity rv,
      randLeadTime = reviewRandLeadTime rv, daysUntilArrival = reviewDaysUntil rv\<rparr>"

text \<open>
  The start of a day: the orders arriving today are added to the inventory and removed
  from the pending orders.
\<close>

definition receivedStock :: "int \<Rightarrow> int \<Rightarrow> InventoryState \<Rightarrow> real" where
  "receivedStock c d st =
     (let ordersArrivingToday = filter (arrivesToday c d) (pendingOrders st);
          arrivalsToday = foldl (\<lambda>a ord. a + quantity ord) 0 ordersArrivingToday
      in inventory st + arrivalsToday)"

definition stillPending :: "int \<Rightarrow> int \<Rightarrow> InventoryState \<Rightarrow> PendingOrder list" where
  "stillPending c d st = filter (\<lambda>ord. \<not> arrivesToday c d ord) (pendingOrders st)"

text \<open>The accumulated shortage a day starts with: the shortage of the last row pushed.\<close>

definition carriedShortage :: "InventoryRow list \<Rightarrow> real" where
  "carriedShortage tbl = (if tbl \<noteq> [] then shortage (last tbl) else 0)"

text \<open>Steps 1 and 2 together: the ending inventory and the shortage of the day.\<close>

definition dayDemand :: "real \<Rightarrow> real \<Rightarrow> real \<Rightarrow> real \<times> real" where
  "dayDemand stock0 accumulatedShortage demandToday =
     (let settled = settleBacklog stock0 accumulatedShortage
      in satisfyDemand (fst settled) demandToday (snd settled))"

text \<open>The body of the two nested loops, on day \<open>d\<close> of cycle \<open>c\<close>.\<close>

definition inventoryDay ::
  "int \<Rightarrow> int \<Rightarrow> CumulativeRow list \<Rightarrow> CumulativeRow list \<Rightarrow> real list \<Rightarrow> real list \<Rightarrow>
   int \<times> int \<Rightarrow> InventoryState \<Rightarrow> runError + InventoryState" where
  "inventoryDay days invLimit demandRows leadTimeRows demandNums leadTimeNums cd st =
     (let c = fst cd; d = snd cd;
          stock0 = receivedStock c d st;
          pending = stillPending c d st;
          daysUntilNextArrival = nextArrivalDisplay c d pending;
          randDem = js_index demandNums (demandIndex st)
      in case (randDem, mapDigit randDem demandRows 100) of
           (Some rd, Some demandToday) \<Rightarrow>
             (let served = dayDemand stock0 (carriedShortage (table st)) demandToday;
                  endingInv = fst served;
                  shortageNow = snd served
              in case reviewOrder days invLimit leadTimeRows leadTimeNums c d endingInv
                        shortageNow daysUntilNextArrival pending (leadTimeIndex st) of
                   Inl e \<Rightarrow> Inl e
                 | Inr rv \<Rightarrow>
                     Inr (st\<lparr>table := table st @
                              [inventoryRow c d stock0 rd demandToday endingInv shortageNow rv],
                            inventory := endingInv,
                            pendingOrders := reviewPending rv,
                            demandIndex := demandIndex st + 1,
                            leadTimeIndex := reviewLeadTimeIndex rv\<rparr>))
         | _ \<Rightarrow> Inl DemandDigitNotMapped)"

text \<open>The days of a run in the order the nested loops visit them.\<close>

definition schedule :: "int \<Rightarrow> int \<Rightarrow> (int \<times> int) list" where
  "schedule cycles days = concat (map (\<lambda>c. map (\<lambda>d. (c, d)) [1..days]) [1..cycles])"

definition InventoryPage_runSimulation ::
  "real \<Rightarrow> real \<Rightarrow> real \<Rightarrow> real \<Rightarrow> real \<Rightarrow> real \<Rightarrow> DistRow list \<Rightarrow> DistRow list \<Rightarrow>
   real list \<Rightarrow> real list \<Rightarrow> runError + InventoryRow list" where
  "InventoryPage_runSimulation numCycles daysPerCycle initialInventory inventoryLimit
       initialOrderQuantity initialOrderLeadTime demandDist leadTimeDist demandNums leadTimeNums =
     (let cycles = \<lfloor>numCycles\<rfloor>; days = \<lfloor>daysPerCycle\<rfloor>;
          initInv = \<lfloor>initialInventory\<rfloor>; invLimit = \<lfloor>inventoryLimit\<rfloor>;
          initOrderQty = \<lfloor>initialOrderQuantity\<rfloor>; initOrderLead = \<lfloor>initialOrderLeadTime\<rfloor>;
          reorder = reorderPoint demandDist leadTimeDist
      in if cycles < 1 \<or> days < 1 then Inl CyclesAndDaysAtLeast1
         else if initInv < 0 then Inl InitialInventoryNegative
         else if invLimit \<le> reorder then Inl LimitNotAboveReorderPoint
         else if initOrderQty < 0 then Inl InitialOrderQuantityNegative
         else if initOrderLead < 0 then Inl InitialOrderLeadTimeNegative
         else (case buildCumulative demandDist 100 of
           Inl e \<Rightarrow> Inl (TableError DemandTable e)
         | Inr demandRows \<Rightarrow>
         (case buildCumulative leadTimeDist 10 of
           Inl e \<Rightarrow> Inl (TableError LeadTimeTable e)
         | Inr leadTimeRows \<Rightarrow>
           (let totalDays = cycles * days
            in if int (length demandNums) < totalDays then Inl NotEnoughDemandDigits
               else if list_ex (\<lambda>d. d < 1 \<or> d > 100) demandNums
                 then Inl DemandDigitsOutOfRange
               else if list_ex (\<lambda>d. d < 1 \<or> d > 10) leadTimeNums
                 then Inl LeadTimeDigitsOutOfRange
               else (case forEachM
                            (inventoryDay days invLimit demandRows leadTimeRows
                               demandNums leadTimeNums)
                            (schedule cycles days)
                            \<lparr>table = [], inventory = of_int initInv,
                              pendingOrders = initialPendingOrders initOrderQty initOrderLead,
                              demandIndex = 0, leadTimeIndex = 0\<rparr> of
                       Inl e \<Rightarrow> Inl e
                     | Inr st \<Rightarrow> Inr (table st))))))"

text \<open>
  The order a review pushes, as the program computes it: the remainder is the program's
  \<^verbatim>\<open>%\<close>.
\<close>

definition enqueuedOrder :: "int \<Rightarrow> int \<Rightarrow> int \<Rightarrow> real \<Rightarrow> real \<Rightarrow> PendingOrder" where
  "enqueuedOrder days c d q leadTime =
     (let absDay = of_int ((c - 1) * days + d) + leadTime + 1;
          r = js_rem absDay (of_int days)
      in \<lparr>quantity = q, arrivalCycle = \<lceil>absDay / of_int days\<rceil>,
          arrivalDay = (if r = 0 then of_int days else r)\<rparr>)"

text \<open>
  The pending order of a review, as the specification states it: the order placed on day
  \<open>d\<close> of cycle \<open>c\<close> with lead time \<open>leadTime\<close> arrives on the absolute day
  \<open>currentAbsoluteDay + leadTime + 1\<close>, in the cycle \<open>ceil (absDay / daysPerCycle)\<close> on the
  day \<open>absDay mod daysPerCycle\<close>, with 0 read as \<open>daysPerCycle\<close>. Here \<open>mod\<close> is the
  mathematical remainder, of the sign of the divisor.
\<close>

definition realMod :: "real \<Rightarrow> real \<Rightarrow> real" where
  "realMod a b = a - b * of_int \<lfloor>a / b\<rfloor>"

definition orderArrival :: "int \<Rightarrow> int \<Rightarrow> int \<Rightarrow> real \<Rightarrow> real \<Rightarrow> PendingOrder" where
  "orderArrival days c d q leadTime =
     (let absDay = of_int ((c - 1) * days + d) + leadTime + 1;
          r = realMod absDay (of_int days)
      in \<lparr>quantity = q, arrivalCycle = \<lceil>absDay / of_int days\<rceil>,
          arrivalDay = (if r = 0 then of_int days else r)\<rparr>)"

text \<open>
  The loop's variables after the first \<open>n\<close> days of a run: the body iterated over the
  first \<open>n\<close> days of the schedule, from the variables the run starts with. The tables are
  those the run has built.
\<close>

definition stateAfterDays ::
  "nat \<Rightarrow> real \<Rightarrow> real \<Rightarrow> real \<Rightarrow> real \<Rightarrow> real \<Rightarrow> real \<Rightarrow>
   CumulativeRow list \<Rightarrow> CumulativeRow list \<Rightarrow> real list \<Rightarrow> real list \<Rightarrow>
   runError + InventoryState" where
  "stateAfterDays n numCycles daysPerCycle initialInventory inventoryLimit
       initialOrderQuantity initialOrderLeadTime demandRows leadTimeRows demandNums leadTimeNums =
     forEachM (inventoryDay \<lfloor>daysPerCycle\<rfloor> \<lfloor>inventoryLimit\<rfloor> demandRows leadTimeRows
                 demandNums leadTimeNums)
       (take n (schedule \<lfloor>numCycles\<rfloor> \<lfloor>daysPerCycle\<rfloor>))
       \<lparr>table = [], inventory = of_int \<lfloor>initialInventory\<rfloor>,
         pendingOrders = initialPendingOrders \<lfloor>initialOrderQuantity\<rfloor> \<lfloor>initialOrderLeadTime\<rfloor>,
         demandIndex = 0, leadTimeIndex = 0\<rparr>"

text \<open>The checks of the parameters that a run makes before it reads the digit streams.\<close>

definition validInventoryInputs ::
  "real \<Rightarrow> real \<Rightarrow> real \<Rightarrow> real \<Rightarrow> real \<Rightarrow> real \<Rightarrow> DistRow list \<Rightarrow> DistRow list \<Rightarrow> bool" where
  "validInventoryInputs numCycles daysPerCycle initialInventory inventoryLimit
       initialOrderQuantity initialOrderLeadTime demandDist leadTimeDist \<longleftrightarrow>
     1 \<le> \<lfloor>numCycles\<rfloor> \<and> 1 \<le> \<lfloor>daysPerCycle\<rfloor> \<and> 0 \<le> \<lfloor>initialInventory\<rfloor> \<and>
     reorderPoint demandDist leadTimeDist < \<lfloor>inventoryLimit\<rfloor> \<and>
     0 \<le> \<lfloor>initialOrderQuantity\<rfloor> \<and> 0 \<le> \<lfloor>initialOrderLeadTime\<rfloor> \<and>
     validDistribution demandDist \<and> validDistribution leadTimeDist"

text \<open>
  What holds of the loop's variables before and after every day when no demand value is
  negative: the inventory and the shortages are never negative, every pending order has
  a positive quantity, and no row has both stock and a shortage.
\<close>

definition dayInvariant :: "InventoryState \<Rightarrow> bool" where
  "dayInvariant st \<longleftrightarrow>
     0 \<le> inventory st \<and>
     (\<forall>ord \<in> set (pendingOrders st). 0 < quantity ord) \<and>
     (\<forall>row \<in> set (table st).
        0 \<le> shortage row \<and> (endingInventory row = 0 \<or> shortage row = 0))"

text \<open>
  What the specification says of the review of one day of a run: \<open>st\<close> and \<open>st'\<close> are the
  loop's variables before and after the day and \<open>row\<close> is the day's row. The row has an
  order quantity exactly on the last day of a cycle, and it is then
  \<open>Q = inventoryLimit - endingInventory + shortage\<close>; when \<open>Q > 0\<close> on such a day and a
  lead-time digit is left, the pending orders gain the order of \<open>orderArrival\<close>, and in
  every other case they gain none.
\<close>

definition reviewedDay ::
  "int \<Rightarrow> int \<Rightarrow> CumulativeRow list \<Rightarrow> real list \<Rightarrow> InventoryState \<Rightarrow> InventoryState \<Rightarrow>
   InventoryRow \<Rightarrow> bool" where
  "reviewedDay days invLimit leadTimeRows leadTimeNums st st' row \<longleftrightarrow>
     (let q = of_int invLimit - endingInventory row + shortage row;
          pending = stillPending (cycle row) (day row) st
      in orderQuantity row = (if day row = days then Some q else None) \<and>
         (if day row = days \<and> 0 < q \<and> leadTimeIndex st < length leadTimeNums
          then \<exists>leadTime.
                 mapRandomToValue (leadTimeNums ! leadTimeIndex st) leadTimeRows 10 =
                   Some leadTime \<and>
                 randLeadTime row = Some (leadTimeNums ! leadTimeIndex st) \<and>
                 pendingOrders st' =
                   pending @ [orderArrival days (cycle row) (day row) q leadTime]
          else randLeadTime row = None \<and> pendingOrders st' = pending))"

section \<open>The statistical tests\<close>

text \<open>
  The inverse of the cumulative normal distribution, by rational approximation in three
  regions. \<^verbatim>\<open>Math.log\<close> and \<^verbatim>\<open>Math.sqrt\<close> are the real logarithm and square root: for
  \<open>0 < p < 1\<close> their arguments are positive.
\<close>

text \<open>The coefficients of the approximation and the bounds of its regions.\<close>

definition a1 :: real where
  "a1 = - 39.69683028665376"

definition a2 :: real where
  "a2 = 220.9460984245205"

definition a3 :: real where
  "a3 = - 275.9285104469687"

definition a4 :: real where
  "a4 = 138.3577518672690"

definition a5 :: real where
  "a5 = - 30.66479806614716"

definition a6 :: real where
  "a6 = 2.506628277459239"

definition b1 :: real where
  "b1 = - 54.47609879822406"

definition b2 :: real where
  "b2 = 161.5858368580409"

definition b3 :: real where
  "b3 = - 155.6989798598866"

definition b4 :: real where
  "b4 = 66.80131188771972"

definition b5 :: real where
  "b5 = - 13.28068155288572"

definition c1 :: real where
  "c1 = - 0.007784894002430293"

definition c2 :: real where
  "c2 = - 0.3223964580411365"

definition c3 :: real where
  "c3 = - 2.400758277161838"

definition c4 :: real where
  "c4 = - 2.549732539343734"

definition c5 :: real where
  "c5 = 4.374664141464968"

definition c6 :: real where
  "c6 = 2.938163982698783"

definition d1 :: real where
  "d1 = 0.007784695709041462"

definition d2 :: real where
  "d2 = 0.3224671290700398"

definition d3 :: real where
  "d3 = 2.445134137142996"

definition d4 :: real where
  "d4 = 3.754408661907416"

definition p_low :: real where
  "p_low = 0.02425"

definition p_high :: real where
  "p_high = 1 - p_low"

definition getNormInverse :: "real \<Rightarrow> real" where
  "getNormInverse p =
     (if p < p_low then
        (let q = sqrt (- 2 * ln p)
         in (((((c1 * q + c2) * q + c3) * q + c4) * q + c5) * q + c6) /
            ((((d1 * q + d2) * q + d3) * q + d4) * q + 1))
      else if p > p_high then
        (let q = sqrt (- 2 * ln (1 - p))
         in - (((((c1 * q + c2) * q + c3) * q + c4) * q + c5) * q + c6) /
            ((((d1 * q + d2) * q + d3) * q + d4) * q + 1))
      else
        (let q = p - 0.5;
             r = q * q
         in (((((a1 * r + a2) * r + a3) * r + a4) * r + a5) * r + a6) * q /
            (((((b1 * r + b2) * r + b3) * r + b4) * r + b5) * r + 1)))"

definition getChiSquareCriticalValue :: "real \<Rightarrow> real \<Rightarrow> real" where
  "getChiSquareCriticalValue df alpha =
     (if df < 1 then 0
      else let p = 1 - alpha
           in if df = 1 then (let z = getNormInverse (1 - alpha / 2) in z * z)
              else if df = 2 then - 2 * ln alpha
              else (let z_p = getNormInverse p;
                        term = 1 - (2 / (9 * df)) + z_p * sqrt (2 / (9 * df))
                    in df * term ^ 3))"

record Interval =
  intervalStart :: real
  intervalEnd :: real
  oi :: nat
  ei :: real
  chiPart :: real

record ChiSquareResult =
  intervals :: "Interval list"
  chiStat :: real
  criticalValue :: real
  dof :: int
  isUniform :: bool
  chiN :: nat
  chiAlpha :: real
  chiK :: int

text \<open>
  The interval \<open>i\<close> of \<open>k\<close>: the observed count is of the numbers in \<open>[start, end)\<close>, the
  last interval taking its right end too.
\<close>

definition chiInterval :: "real list \<Rightarrow> int \<Rightarrow> real \<Rightarrow> nat \<Rightarrow> Interval" where
  "chiInterval numbers k expected i =
     (let start = real i / of_int k;
          e = (real i + 1) / of_int k;
          observed = length (filter (\<lambda>n. n \<ge> start \<and> (if int i = k - 1 then n \<le> e else n < e))
                               numbers)
      in \<lparr>intervalStart = start, intervalEnd = e, oi = observed, ei = expected,
          chiPart = (real observed - expected) ^ 2 / expected\<rparr>)"

text \<open>
  The chi-square test. The page calls it with at least one number and \<open>k \<ge> 1\<close>; on an
  empty sample the program's statistic is \<open>NaN\<close>, which the real numbers do not have.
\<close>

definition calculateChiSquare :: "real list \<Rightarrow> int \<Rightarrow> real \<Rightarrow> ChiSquareResult" where
  "calculateChiSquare numbers k alpha =
     (let n = length numbers;
          expected = real n / of_int k;
          ivs = map (chiInterval numbers k expected) [0..<nat k];
          stat = foldl (\<lambda>s iv. s + chiPart iv) 0 ivs;
          degrees = k - 1;
          critical = getChiSquareCriticalValue (of_int degrees) alpha
      in \<lparr>intervals = ivs, chiStat = stat, criticalValue = critical, dof = degrees,
          isUniform = (stat < critical), chiN = n, chiAlpha = alpha, chiK = k\<rparr>)"

text \<open>
  The critical value as the specification states it. The two tails of the inverse normal
  approximation are one rational function of \<open>q\<close>, the centre another of \<open>q\<close> and
  \<open>r = q\<^sup>2\<close>, written here as quotients of polynomials in the coefficients above.
\<close>

definition acklamTail :: "real \<Rightarrow> real" where
  "acklamTail q =
     (c1 * q ^ 5 + c2 * q ^ 4 + c3 * q ^ 3 + c4 * q ^ 2 + c5 * q + c6) /
     (d1 * q ^ 4 + d2 * q ^ 3 + d3 * q ^ 2 + d4 * q + 1)"

definition acklamCentral :: "real \<Rightarrow> real" where
  "acklamCentral q =
     (let r = q ^ 2
      in q * (a1 * r ^ 5 + a2 * r ^ 4 + a3 * r ^ 3 + a4 * r ^ 2 + a5 * r + a6) /
         (b1 * r ^ 5 + b2 * r ^ 4 + b3 * r ^ 3 + b4 * r ^ 2 + b5 * r + 1))"

definition inverseNormalSpec :: "real \<Rightarrow> real" where
  "inverseNormalSpec p =
     (if p < 0.02425 then acklamTail (sqrt (- 2 * ln p))
      else if p > 0.97575 then - acklamTail (sqrt (- 2 * ln (1 - p)))
      else acklamCentral (p - 1 / 2))"

definition criticalValueSpec :: "real \<Rightarrow> real \<Rightarrow> real" where
  "criticalValueSpec df alpha =
     (if df = 1 then (inverseNormalSpec (1 - alpha / 2)) ^ 2
      else if df = 2 then - 2 * ln alpha
      else df * (1 - 2 / (9 * df) + inverseNormalSpec (1 - alpha) * sqrt (2 / (9 * df))) ^ 3)"

text \<open>
  The autocorrelation test of the file that holds \<open>getChiSquareCriticalValue\<close>. The
  fields \<open>lagK\<close> and \<open>corrValue\<close> are the source's \<^verbatim>\<open>k\<close> and \<^verbatim>\<open>value\<close>; the argument \<open>lag\<close>
  is not used.
\<close>

record Correlation =
  lagK :: nat
  corrValue :: real

record DependencyResult =
  correlations :: "Correlation list"
  avgAbsCorrelation :: real
  isIndependent :: bool
  depN :: nat
  depAlpha :: real

definition lagCorrelation :: "real list \<Rightarrow> real \<Rightarrow> real \<Rightarrow> nat \<Rightarrow> Correlation" where
  "lagCorrelation numbers mean variance k =
     (let n = length numbers;
          covSum = foldl (\<lambda>s i. s + (numbers ! i - mean) * (numbers ! (i + k) - mean)) 0
                     [0..<n - k];
          r_k = (if variance \<noteq> 0 then (1 / real (n - k)) * (covSum / variance) else 0)
      in \<lparr>lagK = k, corrValue = r_k\<rparr>)"

definition calculateDependency :: "real list \<Rightarrow> nat \<Rightarrow> real \<Rightarrow> DependencyResult" where
  "calculateDependency numbers lag alpha =
     (let n = length numbers;
          total = foldl (\<lambda>s i. s + numbers ! i) 0 [0..<n];
          mean = total / real n;
          sumSqDiff = foldl (\<lambda>s i. s + (numbers ! i - mean) ^ 2) 0 [0..<n];
          variance = (if n > 1 then sumSqDiff / real (n - 1) else 0);
          corrs = map (lagCorrelation numbers mean variance) [1..<n];
          sumAbs = foldl (\<lambda>s c. s + \<bar>corrValue c\<bar>) 0 corrs;
          avgAbs = (if length corrs > 0 then sumAbs / real (length corrs) else 0)
      in \<lparr>correlations = corrs, avgAbsCorrelation = avgAbs, isIndependent = True,
          depN = n, depAlpha = alpha\<rparr>)"

text \<open>
  The quantities of the specification's test: the sample mean, the sample variance with
  divisor \<open>N - 1\<close>, the lag-\<open>k\<close> correlation \<open>r\<^sub>k\<close> (0 when the variance is 0), and the
  statistic \<open>Z\<^sub>k = r\<^sub>k / (1 / sqrt N)\<close>. The two-tailed critical value at \<open>\<alpha> = 0.05\<close> is
  the entry of \<^verbatim>\<open>Z_CRITICAL_TABLE\<close> in \<^verbatim>\<open>utils/statistics.ts\<close>.
\<close>

definition sampleMean :: "real list \<Rightarrow> real" where
  "sampleMean xs = sum_list xs / real (length xs)"

definition sampleVariance :: "real list \<Rightarrow> real" where
  "sampleVariance xs =
     (if length xs > 1
      then (\<Sum>x\<leftarrow>xs. (x - sampleMean xs) ^ 2) / real (length xs - 1) else 0)"

definition autocorrelation :: "real list \<Rightarrow> nat \<Rightarrow> real" where
  "autocorrelation xs k =
     (if sampleVariance xs \<noteq> 0
      then (1 / real (length xs - k)) *
           ((\<Sum>i\<leftarrow>[0..<length xs - k]. (xs ! i - sampleMean xs) * (xs ! (i + k) - sampleMean xs)) /
            sampleVariance xs)
      else 0)"

definition zStatistic :: "real list \<Rightarrow> nat \<Rightarrow> real" where
  "zStatistic xs k = autocorrelation xs k / (1 / sqrt (real (length xs)))"

definition zCritical_0_05 :: real where
  "zCritical_0_05 = 1.96"

section \<open>Properties of the cumulative tables and the digit mapper\<close>

lemma assignRanges_length: "length (assignRanges scale p rows) = length rows"
  by (induction rows arbitrary: p) (simp_all add: Let_def)

lemma assignRanges_Nil_iff: "assignRanges scale p rows = [] \<longleftrightarrow> rows = []"
  by (cases rows) (simp_all add: Let_def)

lemma cumulate_Nil_iff: "cumulate s d = [] \<longleftrightarrow> d = []"
  by (cases d) (simp_all add: Let_def)

lemma assignRanges_hd:
  "rows \<noteq> [] \<Longrightarrow> rangeStart (hd (assignRanges scale p rows)) = p + 1"
  by (cases rows) (simp_all add: Let_def)

lemma assignRanges_chain:
  "Suc i < length rows \<Longrightarrow>
   rangeStart (assignRanges scale p rows ! Suc i) = rangeEnd (assignRanges scale p rows ! i) + 1"
proof (induction rows arbitrary: p i)
  case Nil
  then show ?case by simp
next
  case (Cons row rest)
  let ?e = "min scale (js_round (cumulative row * of_int scale))"
  have step: "assignRanges scale p (row # rest) =
      row\<lparr>rangeStart := p + 1, rangeEnd := ?e\<rparr> # assignRanges scale ?e rest"
    by (simp add: Let_def)
  show ?case
  proof (cases i)
    case 0
    with Cons.prems have "rest \<noteq> []" by auto
    then have "rangeStart (hd (assignRanges scale ?e rest)) = ?e + 1"
      by (rule assignRanges_hd)
    moreover have "assignRanges scale ?e rest \<noteq> []"
      using \<open>rest \<noteq> []\<close> by (simp add: assignRanges_Nil_iff)
    ultimately have "rangeStart (assignRanges scale ?e rest ! 0) = ?e + 1"
      by (simp add: hd_conv_nth)
    with 0 show ?thesis unfolding step by simp
  next
    case (Suc k)
    with Cons.prems have "Suc k < length rest" by simp
    from Cons.IH[OF this, of ?e] Suc show ?thesis unfolding step by simp
  qed
qed

lemma assignRanges_last:
  "d \<noteq> [] \<Longrightarrow>
   rangeEnd (last (assignRanges scale p (cumulate s d))) =
     min scale (js_round (foldl (\<lambda>s row. s + probability row) s d * of_int scale))"
proof (induction d arbitrary: s p)
  case Nil
  then show ?case by simp
next
  case (Cons row rest)
  show ?case
  proof (cases "rest = []")
    case True
    then show ?thesis by (simp add: Let_def)
  next
    case False
    then have "assignRanges scale (min scale (js_round ((s + probability row) * of_int scale)))
                 (cumulate (s + probability row) rest) \<noteq> []"
      by (simp add: assignRanges_Nil_iff cumulate_Nil_iff)
    with Cons.IH[OF False] show ?thesis by (simp add: Let_def)
  qed
qed

lemma js_round_mono: "x \<le> y \<Longrightarrow> js_round x \<le> js_round y"
  by (simp add: js_round_def floor_mono)

lemma starts_exceed:
  assumes "\<forall>row \<in> set d. 0 \<le> probability row" and "0 \<le> scale"
    and "p \<le> min scale (js_round (s * of_int scale))"
  shows "\<forall>row \<in> set (assignRanges scale p (cumulate s d)). p < rangeStart row"
  using assms
proof (induction d arbitrary: s p)
  case Nil
  then show ?case by simp
next
  case (Cons row rest)
  let ?s' = "s + probability row"
  let ?e = "min scale (js_round (?s' * of_int scale))"
  from Cons.prems have "s * of_int scale \<le> ?s' * of_int scale"
    by (simp add: mult_right_mono)
  then have "js_round (s * of_int scale) \<le> js_round (?s' * of_int scale)"
    by (rule js_round_mono)
  with Cons.prems(3) have pe: "p \<le> ?e" by simp
  from Cons.prems have "\<forall>row \<in> set (assignRanges scale ?e (cumulate ?s' rest)). ?e < rangeStart row"
    by (intro Cons.IH) simp_all
  with pe show ?case by (auto simp: Let_def)
qed

lemma exactly_one:
  assumes "\<forall>row \<in> set d. 0 \<le> probability row" and "0 \<le> scale"
    and "p \<le> min scale (js_round (s * of_int scale))"
    and "d \<noteq> []"
    and "rangeEnd (last (assignRanges scale p (cumulate s d))) = scale"
    and "p < r" and "r \<le> scale"
  shows "length (filter (contains r) (assignRanges scale p (cumulate s d))) = 1"
  using assms
proof (induction d arbitrary: s p)
  case Nil
  then show ?case by simp
next
  case (Cons row rest)
  let ?s' = "s + probability row"
  let ?e = "min scale (js_round (?s' * of_int scale))"
  let ?rest = "assignRanges scale ?e (cumulate ?s' rest)"
  have nonneg: "\<forall>row \<in> set rest. 0 \<le> probability row" using Cons.prems(1) by simp
  have later: "\<forall>row \<in> set ?rest. ?e < rangeStart row"
    using nonneg Cons.prems(2) by (intro starts_exceed) simp_all
  show ?case
  proof (cases "r \<le> ?e")
    case True
    with later have "filter (contains r) ?rest = []"
      by (auto simp: filter_empty_conv contains_def)
    moreover have "contains r \<lparr>val = val row, probability = probability row, cumulative = ?s', rangeStart = p + 1, rangeEnd = ?e\<rparr>"
      using True Cons.prems(6) by (simp add: contains_def)
    ultimately show ?thesis by (simp add: Let_def)
  next
    case False
    have ne: "rest \<noteq> []"
    proof
      assume "rest = []"
      with Cons.prems(5) have "?e = scale" by (simp add: Let_def)
      with False Cons.prems(7) show False by simp
    qed
    then have "?rest \<noteq> []" by (simp add: assignRanges_Nil_iff cumulate_Nil_iff)
    with Cons.prems(5) have last: "rangeEnd (last ?rest) = scale" by (simp add: Let_def)
    have "length (filter (contains r) ?rest) = 1"
      using nonneg Cons.prems(2) ne last False Cons.prems(7) by (intro Cons.IH) simp_all
    moreover have "\<not> contains r \<lparr>val = val row, probability = probability row, cumulative = ?s', rangeStart = p + 1, rangeEnd = ?e\<rparr>"
      using False by (simp add: contains_def)
    ultimately show ?thesis by (simp add: Let_def)
  qed
qed

lemma covered:
  assumes "rows \<noteq> []"
    and "rangeEnd (last (assignRanges scale p rows)) = scale"
    and "p < r" and "r \<le> scale"
  shows "\<exists>row. find (contains r) (assignRanges scale p rows) = Some row"
  using assms
proof (induction rows arbitrary: p)
  case Nil
  then show ?case by simp
next
  case (Cons row rest)
  let ?e = "min scale (js_round (cumulative row * of_int scale))"
  show ?case
  proof (cases "r \<le> ?e")
    case True
    with Cons.prems(3) show ?thesis by (simp add: Let_def contains_def)
  next
    case False
    have ne: "rest \<noteq> []"
    proof
      assume "rest = []"
      with Cons.prems(2) have "?e = scale" by (simp add: Let_def)
      with False Cons.prems(4) show False by simp
    qed
    then have "assignRanges scale ?e rest \<noteq> []" by (simp add: assignRanges_Nil_iff)
    with Cons.prems(2) have "rangeEnd (last (assignRanges scale ?e rest)) = scale"
      by (simp add: Let_def)
    from Cons.IH[OF ne this _ Cons.prems(4)] False
    obtain row' where "find (contains r) (assignRanges scale ?e rest) = Some row'" by auto
    then show ?thesis by (simp add: Let_def)
  qed
qed

lemma round_total:
  assumes "\<bar>t - 1\<bar> \<le> tolerance" and "1 \<le> scale" and "scale \<le> 500"
  shows "min scale (js_round (t * of_int scale)) = scale"
proof -
  have sc: "(1::real) \<le> of_int scale" "of_int scale \<le> (500::real)" using assms by simp_all
  from assms(1) have "1 - 1/1000 \<le> t" unfolding tolerance_def by linarith
  then have "(1 - 1/1000) * of_int scale \<le> t * of_int scale"
    using sc by (intro mult_right_mono) simp_all
  moreover have "of_int scale - 1/2 \<le> (1 - 1/1000) * (of_int scale :: real)"
    using sc by (simp add: algebra_simps)
  ultimately have "of_int scale \<le> t * of_int scale + 1/2" by simp
  then have "scale \<le> js_round (t * of_int scale)"
    unfolding js_round_def by (simp add: le_floor_iff)
  then show ?thesis by simp
qed


lemma foldl_probability:
  "foldl (\<lambda>s row. s + probability row) s d = s + sum_list (map probability d)"
  by (induction d arbitrary: s) simp_all

lemma buildCumulative_valid:
  "validDistribution distRows \<Longrightarrow>
   buildCumulative distRows scale = Inr (assignRanges scale 0 (cumulate 0 distRows))"
  by (simp add: buildCumulative_def validDistribution_def foldl_probability Let_def)

lemma buildCumulative_Inr:
  "buildCumulative distRows scale = Inr rows \<Longrightarrow>
   validDistribution distRows \<and> rows = assignRanges scale 0 (cumulate 0 distRows)"
  by (auto simp: buildCumulative_def validDistribution_def foldl_probability Let_def
      split: if_splits)

lemma valid_last_end:
  assumes "validDistribution distRows" and "1 \<le> scale" and "scale \<le> 500"
  shows "rangeEnd (last (assignRanges scale 0 (cumulate 0 distRows))) = scale"
proof -
  from assms(1) have ne: "distRows \<noteq> []"
    and tol: "\<bar>(0 + sum_list (map probability distRows)) - 1\<bar> \<le> tolerance"
    by (simp_all add: validDistribution_def)
  have "rangeEnd (last (assignRanges scale 0 (cumulate 0 distRows))) =
      min scale (js_round ((0 + sum_list (map probability distRows)) * of_int scale))"
    using assignRanges_last[OF ne, of scale 0 0] by (simp only: foldl_probability)
  also have "\<dots> = scale" using tol assms(2,3) by (rule round_total)
  finally show ?thesis .
qed

lemma inRange_of_int: "inRange (of_int n) = contains n"
  by (rule ext) (simp add: inRange_def contains_def)

lemma mapRandomToValue_covers:
  assumes "buildCumulative distRows scale = Inr rows"
    and "1 \<le> scale" and "scale \<le> 500"
    and "0 \<le> r" and "r \<le> scale"
  shows "\<exists>row \<in> set rows.
           mapRandomToValue (of_int r) rows scale = Some (val row) \<and>
           inRange (of_int (if r = 0 then scale else r)) row"
proof -
  let ?n = "if r = 0 then scale else r"
  from buildCumulative_Inr[OF assms(1)] have valid: "validDistribution distRows"
    and rows: "rows = assignRanges scale 0 (cumulate 0 distRows)" by simp_all
  from valid have "cumulate 0 distRows \<noteq> []"
    by (simp add: validDistribution_def cumulate_Nil_iff)
  moreover have "rangeEnd (last (assignRanges scale 0 (cumulate 0 distRows))) = scale"
    using valid assms(2,3) by (rule valid_last_end)
  moreover have "0 < ?n" "?n \<le> scale" using assms(2,4,5) by auto
  ultimately obtain row where f: "find (contains ?n) rows = Some row"
    unfolding rows using covered by blast
  then have "row \<in> set rows" "contains ?n row"
    by (auto simp: find_Some_iff)
  moreover have "(if real_of_int r = 0 then real_of_int scale else real_of_int r) = of_int ?n"
    by simp
  then have "mapRandomToValue (of_int r) rows scale = Some (val row)"
    unfolding mapRandomToValue_def Let_def using f by (simp only: inRange_of_int option.case)
  ultimately show ?thesis by (auto simp: inRange_of_int)
qed

lemma mapRandomToValue_integerDigit:
  assumes "buildCumulative distRows scale = Inr rows" and "1 \<le> scale" and "scale \<le> 500"
    and "integerDigit scale d"
  shows "\<exists>v. mapRandomToValue d rows scale = Some v"
proof -
  from assms(4) have d: "of_int \<lfloor>d\<rfloor> = d" and "1 \<le> d" and "d \<le> of_int scale"
    unfolding integerDigit_def by blast+
  then have "0 \<le> \<lfloor>d\<rfloor>" and "\<lfloor>d\<rfloor> \<le> scale" by linarith+
  from mapRandomToValue_covers[OF assms(1-3) this] d show ?thesis by metis
qed

text \<open>
  Claim C1, as amended. For every distribution with at least one row whose probabilities
  are non-negative and sum to 1 within the tolerance 0.001, and every integer scale from
  1 to 500 (the program uses 10 and 100), \<open>buildCumulative\<close> returns a table whose ranges
  partition \<open>[1, scale]\<close>: every integer of the interval lies in exactly one row's range,
  there are no gaps and no overlaps, and the last row's range ends at the scale.
\<close>

theorem buildCumulative_partition:
  assumes "validDistribution distRows"
    and "\<forall>row \<in> set distRows. 0 \<le> probability row"
    and "1 \<le> scale" and "scale \<le> 500"
  shows "\<exists>rows. buildCumulative distRows scale = Inr rows \<and> partitionsRange rows scale"
proof -
  let ?rows = "assignRanges scale 0 (cumulate 0 distRows)"
  from assms(1) have ne: "distRows \<noteq> []" by (simp add: validDistribution_def)
  then have cne: "cumulate 0 distRows \<noteq> []" by (simp add: cumulate_Nil_iff)
  have last: "rangeEnd (last ?rows) = scale" using assms(1,3,4) by (rule valid_last_end)
  have p0: "(0::int) \<le> min scale (js_round (0 * of_int scale))"
    using assms(3) by (simp add: js_round_def)
  have one: "\<forall>r. 1 \<le> r \<and> r \<le> scale \<longrightarrow> length (filter (contains r) ?rows) = 1"
  proof (intro allI impI)
    fix r :: int
    assume "1 \<le> r \<and> r \<le> scale"
    then have "0 < r" "r \<le> scale" by simp_all
    with assms(2,3) p0 ne last show "length (filter (contains r) ?rows) = 1"
      by (intro exactly_one) simp_all
  qed
  have hd: "rangeStart (hd ?rows) = 1" using assignRanges_hd[OF cne, of scale 0] by simp
  have chain: "\<forall>i. Suc i < length ?rows \<longrightarrow>
      rangeStart (?rows ! Suc i) = rangeEnd (?rows ! i) + 1"
    by (simp add: assignRanges_length assignRanges_chain)
  from one hd chain last have "partitionsRange ?rows scale"
    unfolding partitionsRange_def by blast
  with buildCumulative_valid[OF assms(1), of scale] show ?thesis by blast
qed

text \<open>The theorem at the lead-time distribution of the inventory page, scale 10.\<close>

theorem buildCumulative_partition_witness:
  "validDistribution [\<lparr>val = 1, probability = 6 / 10\<rparr>, \<lparr>val = 2, probability = 3 / 10\<rparr>,
                      \<lparr>val = 3, probability = 1 / 10\<rparr>] \<and>
   (\<exists>rows. buildCumulative [\<lparr>val = 1, probability = 6 / 10\<rparr>, \<lparr>val = 2, probability = 3 / 10\<rparr>,
                      \<lparr>val = 3, probability = 1 / 10\<rparr>] 10 = Inr rows \<and> partitionsRange rows 10)"
  using buildCumulative_partition [of "[\<lparr>val = 1, probability = 6 / 10\<rparr>,
      \<lparr>val = 2, probability = 3 / 10\<rparr>, \<lparr>val = 3, probability = 1 / 10\<rparr>]" 10]
  by (simp add: validDistribution_def tolerance_def)

text \<open>
  Claim C1 as stated fails in two ways. At scale 1000 the single row of probability
  0.9991 passes the tolerance check and its range ends at 999, not at the scale. With a
  negative probability the cumulative sums are not monotone: for the probabilities
  0.6, -0.2, 0.6 at scale 100 the ranges are 1-60, 61-40 and 41-100, and 50 lies in two
  of them.
\<close>

theorem buildCumulative_partition_counterexample:
  "validDistribution [\<lparr>val = 1, probability = 9991 / 10000\<rparr>] \<and>
   buildCumulative [\<lparr>val = 1, probability = 9991 / 10000\<rparr>] 1000 =
     Inr [\<lparr>val = 1, probability = 9991 / 10000, cumulative = 9991 / 10000,
           rangeStart = 1, rangeEnd = 999\<rparr>] \<and>
   \<not> partitionsRange [\<lparr>val = 1, probability = 9991 / 10000, cumulative = 9991 / 10000,
           rangeStart = 1, rangeEnd = 999\<rparr>] 1000 \<and>
   validDistribution [\<lparr>val = 1, probability = 6 / 10\<rparr>, \<lparr>val = 2, probability = - 2 / 10\<rparr>,
                      \<lparr>val = 3, probability = 6 / 10\<rparr>] \<and>
   buildCumulative [\<lparr>val = 1, probability = 6 / 10\<rparr>, \<lparr>val = 2, probability = - 2 / 10\<rparr>,
                    \<lparr>val = 3, probability = 6 / 10\<rparr>] 100 =
     Inr [\<lparr>val = 1, probability = 6 / 10, cumulative = 6 / 10, rangeStart = 1, rangeEnd = 60\<rparr>,
          \<lparr>val = 2, probability = - 2 / 10, cumulative = 4 / 10, rangeStart = 61, rangeEnd = 40\<rparr>,
          \<lparr>val = 3, probability = 6 / 10, cumulative = 1, rangeStart = 41, rangeEnd = 100\<rparr>] \<and>
   length (filter (contains 50)
         [\<lparr>val = 1, probability = 6 / 10, cumulative = 6 / 10, rangeStart = 1, rangeEnd = 60\<rparr>,
          \<lparr>val = 2, probability = - 2 / 10, cumulative = 4 / 10, rangeStart = 61, rangeEnd = 40\<rparr>,
          \<lparr>val = 3, probability = 6 / 10, cumulative = 1, rangeStart = 41, rangeEnd = 100\<rparr>]) = 2"
  by (simp add: validDistribution_def buildCumulative_def tolerance_def js_round_def
      partitionsRange_def contains_def Let_def)

text \<open>
  Claim C2. For the scales of the program, 100 and 10 (and every integer scale from 1 to
  500), every table that \<open>buildCumulative\<close> returns at that scale and every integer \<open>r\<close>
  in \<open>[0, scale]\<close>, \<open>mapRandomToValue\<close> treats \<open>r = 0\<close> as the scale and returns the value
  of a row whose range contains the normalized digit; it does not return the not-mapped
  result.
\<close>

theorem mapRandomToValue_total:
  assumes "buildCumulative distRows scale = Inr rows"
    and "1 \<le> scale" and "scale \<le> 500"
    and "0 \<le> r" and "r \<le> scale"
  shows "\<exists>row \<in> set rows.
           mapRandomToValue (of_int r) rows scale = Some (val row) \<and>
           inRange (of_int (if r = 0 then scale else r)) row"
  using assms by (rule mapRandomToValue_covers)

text \<open>The theorem at the digit 0 of a one-digit table: it is read as 10.\<close>

theorem mapRandomToValue_total_witness:
  "buildCumulative [\<lparr>val = 1, probability = 6 / 10\<rparr>, \<lparr>val = 2, probability = 3 / 10\<rparr>,
                    \<lparr>val = 3, probability = 1 / 10\<rparr>] 10 =
     Inr [\<lparr>val = 1, probability = 6 / 10, cumulative = 6 / 10, rangeStart = 1, rangeEnd = 6\<rparr>,
          \<lparr>val = 2, probability = 3 / 10, cumulative = 9 / 10, rangeStart = 7, rangeEnd = 9\<rparr>,
          \<lparr>val = 3, probability = 1 / 10, cumulative = 1, rangeStart = 10, rangeEnd = 10\<rparr>] \<and>
   mapRandomToValue 0
         [\<lparr>val = 1, probability = 6 / 10, cumulative = 6 / 10, rangeStart = 1, rangeEnd = 6\<rparr>,
          \<lparr>val = 2, probability = 3 / 10, cumulative = 9 / 10, rangeStart = 7, rangeEnd = 9\<rparr>,
          \<lparr>val = 3, probability = 1 / 10, cumulative = 1, rangeStart = 10, rangeEnd = 10\<rparr>] 10 = Some 3"
proof -
  have b: "buildCumulative [\<lparr>val = 1, probability = 6 / 10\<rparr>, \<lparr>val = 2, probability = 3 / 10\<rparr>,
                    \<lparr>val = 3, probability = 1 / 10\<rparr>] 10 =
     Inr [\<lparr>val = 1, probability = 6 / 10, cumulative = 6 / 10, rangeStart = 1, rangeEnd = 6\<rparr>,
          \<lparr>val = 2, probability = 3 / 10, cumulative = 9 / 10, rangeStart = 7, rangeEnd = 9\<rparr>,
          \<lparr>val = 3, probability = 1 / 10, cumulative = 1, rangeStart = 10, rangeEnd = 10\<rparr>]"
    by (simp add: buildCumulative_def tolerance_def js_round_def Let_def)
  from mapRandomToValue_total [OF b, of 0] b show ?thesis
    by (auto simp: inRange_def)
qed

section \<open>Loops\<close>

lemma forEachM_invariant:
  assumes "forEachM body xs s = Inr s'" and "I 0 s"
    and "\<And>n t t'. n < length xs \<Longrightarrow> I n t \<Longrightarrow> body (xs ! n) t = Inr t' \<Longrightarrow> I (Suc n) t'"
  shows "I (length xs) s'"
  using assms
proof (induction xs arbitrary: s I)
  case Nil
  then show ?case by simp
next
  case (Cons x xs)
  from Cons.prems(1) obtain s1 where b: "body x s = Inr s1" and r: "forEachM body xs s1 = Inr s'"
    by (auto split: sum.splits)
  from Cons.prems(3)[of 0 s s1] Cons.prems(2) b have i1: "I (Suc 0) s1" by simp
  have "(\<lambda>n. I (Suc n)) (length xs) s'"
  proof (rule Cons.IH[OF r])
    show "I (Suc 0) s1" by (rule i1)
  next
    fix n t t'
    assume "n < length xs" "I (Suc n) t" "body (xs ! n) t = Inr t'"
    with Cons.prems(3)[of "Suc n" t t'] show "I (Suc (Suc n)) t'" by simp
  qed
  then show ?case by simp
qed

lemma forEachM_succeeds:
  assumes "I 0 s"
    and "\<And>n t. n < length xs \<Longrightarrow> I n t \<Longrightarrow> \<exists>t'. body (xs ! n) t = Inr t' \<and> I (Suc n) t'"
  shows "\<exists>s'. forEachM body xs s = Inr s' \<and> I (length xs) s'"
  using assms
proof (induction xs arbitrary: s I)
  case Nil
  then show ?case by simp
next
  case (Cons x xs)
  from Cons.prems(2)[of 0 s] Cons.prems(1)
  obtain s1 where b: "body x s = Inr s1" and i1: "I (Suc 0) s1" by auto
  have "\<exists>s'. forEachM body xs s1 = Inr s' \<and> (\<lambda>n. I (Suc n)) (length xs) s'"
  proof (rule Cons.IH)
    show "I (Suc 0) s1" by (rule i1)
  next
    fix n t
    assume "n < length xs" "I (Suc n) t"
    with Cons.prems(2)[of "Suc n" t]
    show "\<exists>t'. body (xs ! n) t = Inr t' \<and> I (Suc (Suc n)) t'" by simp
  qed
  with b show ?case by simp
qed

lemma js_index_Some: "js_index xs i = Some x \<Longrightarrow> i < length xs \<and> xs ! i = x"
  by (auto simp: js_index_def split: if_splits)

lemma mapDigit_Some:
  "mapDigit d rows scale = Some v \<Longrightarrow> \<exists>x. d = Some x \<and> mapRandomToValue x rows scale = Some v"
  by (cases d) (simp_all add: mapDigit_def)

text \<open>
  A loop over a list is the loop over a prefix followed by the loop over the rest, so a
  run that succeeds passes through the state after every prefix.
\<close>

lemma forEachM_append:
  "forEachM body (xs @ ys) s =
     (case forEachM body xs s of Inl e \<Rightarrow> Inl e | Inr t \<Rightarrow> forEachM body ys t)"
  by (induction xs arbitrary: s) (simp_all split: sum.splits)

lemma forEachM_split:
  assumes "forEachM body xs s = Inr u" and "n < length xs"
  obtains t t' where "forEachM body (take n xs) s = Inr t"
    and "body (xs ! n) t = Inr t'"
    and "forEachM body (take (Suc n) xs) s = Inr t'"
    and "forEachM body (drop (Suc n) xs) t' = Inr u"
proof -
  from assms(2) have xs: "xs = take n xs @ (xs ! n # drop (Suc n) xs)"
    by (simp add: id_take_nth_drop[symmetric])
  from assms(1) have "forEachM body (take n xs @ (xs ! n # drop (Suc n) xs)) s = Inr u"
    using xs by simp
  then obtain t where t: "forEachM body (take n xs) s = Inr t"
    and rest: "forEachM body (xs ! n # drop (Suc n) xs) t = Inr u"
    unfolding forEachM_append by (auto split: sum.splits)
  from rest obtain t' where b: "body (xs ! n) t = Inr t'"
    and d: "forEachM body (drop (Suc n) xs) t' = Inr u"
    by (auto split: sum.splits)
  from assms(2) have "take (Suc n) xs = take n xs @ [xs ! n]"
    by (rule take_Suc_conv_app_nth)
  then have "forEachM body (take (Suc n) xs) s = Inr t'"
    using t b by (simp add: forEachM_append)
  from that[OF t b this d] show ?thesis .
qed

section \<open>Properties of the single-server simulator\<close>

lemma ledgerRecurrence_append:
  "i < length tbl \<Longrightarrow>
   ledgerRecurrence A S an sn (tbl @ [row]) i = ledgerRecurrence A S an sn tbl i"
  by (cases i) (simp_all add: ledgerRecurrence_def nth_append)

lemma singleCustomer_Inr:
  assumes "singleCustomer A S an sn i tbl = Inr tbl'" and "length tbl = i"
  shows "\<exists>row. tbl' = tbl @ [row] \<and> ledgerRecurrence A S an sn tbl' i"
proof (cases i)
  case 0
  with assms(2) have [simp]: "tbl = []" by simp
  from assms(1) 0 show ?thesis
    by (auto simp: singleCustomer_def ledgerRecurrence_def Let_def
        split: option.splits dest!: js_index_Some mapDigit_Some)
next
  case (Suc k)
  from assms(1) Suc assms(2) show ?thesis
    by (auto simp: singleCustomer_def ledgerRecurrence_def Let_def nth_append
        split: option.splits dest!: js_index_Some mapDigit_Some)
qed

lemma single_loop_recurrence:
  assumes "forEachM (singleCustomer A S an sn) [0..<n] [] = Inr tbl"
  shows "length tbl = n \<and> (\<forall>i<n. ledgerRecurrence A S an sn tbl i)"
proof -
  let ?I = "\<lambda>m t. length t = m \<and> (\<forall>i<m. ledgerRecurrence A S an sn t i)"
  have "?I (length [0..<n]) tbl"
  proof (rule forEachM_invariant[OF assms, where I = ?I])
    show "?I 0 []" by simp
  next
    fix m t t'
    assume m: "m < length [0..<n]" and inv: "?I m t"
      and step: "singleCustomer A S an sn ([0..<n] ! m) t = Inr t'"
    from m have "[0..<n] ! m = m" by simp
    with step have "singleCustomer A S an sn m t = Inr t'" by simp
    from singleCustomer_Inr[OF this] inv
    obtain row where t': "t' = t @ [row]" and new: "ledgerRecurrence A S an sn t' m" by auto
    have "ledgerRecurrence A S an sn t' i" if "i < Suc m" for i
    proof (cases "i = m")
      case True
      with new show ?thesis by simp
    next
      case False
      with that have "i < m" by simp
      with inv show ?thesis by (simp add: t' ledgerRecurrence_append)
    qed
    with inv t' show "?I (Suc m) t'" by simp
  qed
  then show ?thesis by simp
qed


lemma singleCustomer_succeeds:
  assumes A: "buildCumulative arrivalDist 100 = Inr A"
    and S: "buildCumulative serviceDist 100 = Inr S"
    and "i \<le> length an" and "i < length sn"
    and "\<forall>d \<in> set an. integerDigit 100 d" and "\<forall>d \<in> set sn. integerDigit 100 d"
  shows "\<exists>tbl'. singleCustomer A S an sn i tbl = Inr tbl' \<and> length tbl' = Suc (length tbl)"
proof -
  from assms(4,6) have "integerDigit 100 (sn ! i)" by simp
  from mapRandomToValue_integerDigit[OF S _ _ this]
  obtain st where st: "mapRandomToValue (sn ! i) S 100 = Some st" by auto
  show ?thesis
  proof (cases i)
    case 0
    with st assms(4) show ?thesis
      by (simp add: singleCustomer_def js_index_def mapDigit_def Let_def)
  next
    case (Suc k)
    with assms(3,5) have "integerDigit 100 (an ! k)" by simp
    from mapRandomToValue_integerDigit[OF A _ _ this]
    obtain ia where "mapRandomToValue (an ! k) A 100 = Some ia" by auto
    with st Suc assms(3,4) show ?thesis
      by (simp add: singleCustomer_def js_index_def mapDigit_def Let_def)
  qed
qed

lemma single_loop_succeeds:
  assumes A: "buildCumulative arrivalDist 100 = Inr A"
    and S: "buildCumulative serviceDist 100 = Inr S"
    and "n \<le> Suc (length an)" and "n \<le> length sn"
    and "\<forall>d \<in> set an. integerDigit 100 d" and "\<forall>d \<in> set sn. integerDigit 100 d"
  shows "\<exists>tbl. forEachM (singleCustomer A S an sn) [0..<n] [] = Inr tbl"
proof -
  let ?I = "\<lambda>(m::nat) (t::SingleServerRow list). True"
  have "\<exists>tbl. forEachM (singleCustomer A S an sn) [0..<n] [] = Inr tbl \<and> ?I (length [0..<n]) tbl"
  proof (rule forEachM_succeeds[where I = ?I])
    show "?I 0 []" by simp
  next
    fix m t
    assume m: "m < length [0..<n]"
    then have "m \<le> length an" "m < length sn" using assms(3,4) by simp_all
    from singleCustomer_succeeds[OF A S this assms(5,6), of t] m
    show "\<exists>t'. singleCustomer A S an sn ([0..<n] ! m) t = Inr t' \<and> True" by auto
  qed
  then show ?thesis by simp
qed

text \<open>
  Claim C3. For every single-server run with \<open>count\<close> customers, valid arrival and service
  distributions and enough whole digits from 1 to 100, the run produces a ledger of
  \<open>count\<close> rows, and row \<open>i\<close> (from 0) satisfies the recurrence: the first customer has
  interarrival 0 and arrives at 0; a later one has the mapped value of arrival digit
  \<open>i - 1\<close> as interarrival and arrives that long after the customer before; the service
  time is the mapped value of service digit \<open>i\<close>; service starts at the later of the
  arrival and the previous service end (0 before the first customer); waiting is start
  minus arrival, idle is start minus the previous service end, the service ends at start
  plus service time, and the time in system is waiting plus service time.
\<close>

theorem single_server_recurrence:
  assumes "1 \<le> \<lfloor>customerCount\<rfloor>"
    and "validDistribution arrivalDist" and "validDistribution serviceDist"
    and "\<lfloor>customerCount\<rfloor> - 1 \<le> int (length arrivalNums)"
    and "\<lfloor>customerCount\<rfloor> \<le> int (length serviceNums)"
    and "\<forall>d \<in> set arrivalNums. integerDigit 100 d"
    and "\<forall>d \<in> set serviceNums. integerDigit 100 d"
  shows "\<exists>arrivalRows serviceRows tbl.
           buildCumulative arrivalDist 100 = Inr arrivalRows \<and>
           buildCumulative serviceDist 100 = Inr serviceRows \<and>
           SingleServerPage_runSimulation customerCount arrivalDist serviceDist
             arrivalNums serviceNums = Inr tbl \<and>
           length tbl = nat \<lfloor>customerCount\<rfloor> \<and>
           (\<forall>i < length tbl.
              ledgerRecurrence arrivalRows serviceRows arrivalNums serviceNums tbl i)"
proof -
  let ?n = "nat \<lfloor>customerCount\<rfloor>"
  let ?A = "assignRanges 100 0 (cumulate 0 arrivalDist)"
  let ?S = "assignRanges 100 0 (cumulate 0 serviceDist)"
  have A: "buildCumulative arrivalDist 100 = Inr ?A"
    and S: "buildCumulative serviceDist 100 = Inr ?S"
    using assms(2,3) by (simp_all add: buildCumulative_valid)
  have "?n \<le> Suc (length arrivalNums)" "?n \<le> length serviceNums"
    using assms(4,5) by linarith+
  from single_loop_succeeds[OF A S this assms(6,7)]
  obtain tbl where loop: "forEachM (singleCustomer ?A ?S arrivalNums serviceNums) [0..<?n] [] = Inr tbl"
    by auto
  have nodigit: "\<not> list_ex (\<lambda>d. d < 1 \<or> d > 100) (arrivalNums @ serviceNums)"
    using assms(6,7) by (auto simp: list_ex_iff integerDigit_def)
  have run: "SingleServerPage_runSimulation customerCount arrivalDist serviceDist
      arrivalNums serviceNums = Inr tbl"
    unfolding SingleServerPage_runSimulation_def Let_def
    using assms(1,4,5) nodigit loop by (simp add: A S)
  from single_loop_recurrence[OF loop] A S run show ?thesis by auto
qed


text \<open>The scenario of the specification: two customers, arrival digit 50, service digits 10 and 90.\<close>

lemma single_run_value:
  "SingleServerPage_runSimulation 2
       [\<lparr>val = 1, probability = 1 / 2\<rparr>, \<lparr>val = 2, probability = 1 / 2\<rparr>]
       [\<lparr>val = 2, probability = 1 / 2\<rparr>, \<lparr>val = 3, probability = 1 / 2\<rparr>] [50] [10, 90] =
     Inr [\<lparr>customer = 1, randArrival = 0, interarrival = 0, arrival = 0, randService = 10,
            waiting = 0, timeInSystem = 2, service = 2, serviceStart = 0, serviceEnd = 2,
            idle = 0\<rparr>,
          \<lparr>customer = 2, randArrival = 50, interarrival = 1, arrival = 1, randService = 90,
            waiting = 1, timeInSystem = 4, service = 3, serviceStart = 2, serviceEnd = 5,
            idle = 0\<rparr>]"
  by (simp add: SingleServerPage_runSimulation_def buildCumulative_def tolerance_def
      js_round_def singleCustomer_def js_index_def mapDigit_def mapRandomToValue_def
      inRange_def Let_def upt_rec)

theorem single_server_recurrence_witness:
  "validDistribution [\<lparr>val = 1, probability = 1 / 2\<rparr>, \<lparr>val = 2, probability = 1 / 2\<rparr>] \<and>
   validDistribution [\<lparr>val = 2, probability = 1 / 2\<rparr>, \<lparr>val = 3, probability = 1 / 2\<rparr>] \<and>
   integerDigit 100 50 \<and> integerDigit 100 10 \<and> integerDigit 100 90 \<and>
   (\<exists>arrivalRows serviceRows tbl.
      buildCumulative [\<lparr>val = 1, probability = 1 / 2\<rparr>, \<lparr>val = 2, probability = 1 / 2\<rparr>] 100 =
        Inr arrivalRows \<and>
      buildCumulative [\<lparr>val = 2, probability = 1 / 2\<rparr>, \<lparr>val = 3, probability = 1 / 2\<rparr>] 100 =
        Inr serviceRows \<and>
      SingleServerPage_runSimulation 2
        [\<lparr>val = 1, probability = 1 / 2\<rparr>, \<lparr>val = 2, probability = 1 / 2\<rparr>]
        [\<lparr>val = 2, probability = 1 / 2\<rparr>, \<lparr>val = 3, probability = 1 / 2\<rparr>] [50] [10, 90] = Inr tbl \<and>
      length tbl = 2 \<and> ledgerRecurrence arrivalRows serviceRows [50] [10, 90] tbl 1)"
proof -
  have h: "validDistribution [\<lparr>val = 1, probability = 1 / 2\<rparr>, \<lparr>val = 2, probability = 1 / 2\<rparr>]"
    "validDistribution [\<lparr>val = 2, probability = 1 / 2\<rparr>, \<lparr>val = 3, probability = 1 / 2\<rparr>]"
    "integerDigit 100 50" "integerDigit 100 10" "integerDigit 100 90"
    by (simp_all add: validDistribution_def tolerance_def integerDigit_def)
  from single_server_recurrence [of 2
      "[\<lparr>val = 1, probability = 1 / 2\<rparr>, \<lparr>val = 2, probability = 1 / 2\<rparr>]"
      "[\<lparr>val = 2, probability = 1 / 2\<rparr>, \<lparr>val = 3, probability = 1 / 2\<rparr>]" "[50]" "[10, 90]"] h
  obtain arrivalRows serviceRows tbl where
    "buildCumulative [\<lparr>val = 1, probability = 1 / 2\<rparr>, \<lparr>val = 2, probability = 1 / 2\<rparr>] 100 =
        Inr arrivalRows"
    "buildCumulative [\<lparr>val = 2, probability = 1 / 2\<rparr>, \<lparr>val = 3, probability = 1 / 2\<rparr>] 100 =
        Inr serviceRows"
    "SingleServerPage_runSimulation 2
        [\<lparr>val = 1, probability = 1 / 2\<rparr>, \<lparr>val = 2, probability = 1 / 2\<rparr>]
        [\<lparr>val = 2, probability = 1 / 2\<rparr>, \<lparr>val = 3, probability = 1 / 2\<rparr>] [50] [10, 90] = Inr tbl"
    "length tbl = 2"
    "\<forall>i < length tbl. ledgerRecurrence arrivalRows serviceRows [50] [10, 90] tbl i"
    by auto
  with h show ?thesis by auto
qed

section \<open>Properties of the multi-server simulator\<close>

lemma assignServer_rule:
  "(e1 \<le> t \<and> e2 \<le> t \<longrightarrow>
      chosen (assignServer p t st1 st2 e1 e2) = p \<and>
      chosenWaiting (assignServer p t st1 st2 e1 e2) = 0) \<and>
   (e1 \<le> t \<and> t < e2 \<longrightarrow>
      chosen (assignServer p t st1 st2 e1 e2) = Server1 \<and>
      chosenWaiting (assignServer p t st1 st2 e1 e2) = 0) \<and>
   (t < e1 \<and> e2 \<le> t \<longrightarrow>
      chosen (assignServer p t st1 st2 e1 e2) = Server2 \<and>
      chosenWaiting (assignServer p t st1 st2 e1 e2) = 0) \<and>
   (t < e1 \<and> t < e2 \<longrightarrow>
      chosen (assignServer p t st1 st2 e1 e2) = (if e1 \<le> e2 then Server1 else Server2) \<and>
      chosenStart (assignServer p t st1 st2 e1 e2) = min e1 e2 \<and>
      chosenWaiting (assignServer p t st1 st2 e1 e2) = min e1 e2 - t)"
  by (cases p) (auto simp: assignServer_def Let_def)

lemma assignServer_ends:
  "nextServer1End (assignServer p t st1 st2 e1 e2) =
     (if chosen (assignServer p t st1 st2 e1 e2) = Server1
      then chosenEnd (assignServer p t st1 st2 e1 e2) else e1)"
  "nextServer2End (assignServer p t st1 st2 e1 e2) =
     (if chosen (assignServer p t st1 st2 e1 e2) = Server2
      then chosenEnd (assignServer p t st1 st2 e1 e2) else e2)"
  by (cases p; simp add: assignServer_def Let_def)+

lemma busyUntil_append:
  "busyUntil1 (tbl @ [row]) = (case serviceEnd1 row of Some x \<Rightarrow> x | None \<Rightarrow> busyUntil1 tbl)"
  "busyUntil2 (tbl @ [row]) = (case serviceEnd2 row of Some x \<Rightarrow> x | None \<Rightarrow> busyUntil2 tbl)"
  by (simp_all add: busyUntil1_def busyUntil2_def split: option.splits)

lemma assignmentRule_append:
  "i < length tbl \<Longrightarrow> assignmentRule p (tbl @ [row]) i = assignmentRule p tbl i"
  by (simp add: assignmentRule_def nth_append)



lemma multiCustomer_Inr_form:
  assumes "multiCustomer p A S1 S2 an sn i st = Inr st'"
  obtains ra rs ia st1 st2 where
     "st' = st\<lparr>table := table st @
               [multiRow i ra rs ia (if i = 0 then 0 else arrival (table st ! (i - 1)) + ia) st1 st2
                 (assignServer p (if i = 0 then 0 else arrival (table st ! (i - 1)) + ia) st1 st2
                    (server1End st) (server2End st))],
             server1End := nextServer1End
                 (assignServer p (if i = 0 then 0 else arrival (table st ! (i - 1)) + ia) st1 st2
                    (server1End st) (server2End st)),
             server2End := nextServer2End
                 (assignServer p (if i = 0 then 0 else arrival (table st ! (i - 1)) + ia) st1 st2
                    (server1End st) (server2End st))\<rparr>"
  using assms unfolding multiCustomer_def Let_def
  by (cases "if i = 0 then Some 0 else js_index an (i - 1)"; cases "js_index sn i";
      cases "if i = 0 then Some 0 else mapDigit (if i = 0 then Some 0 else js_index an (i - 1)) A 100";
      cases "mapDigit (js_index sn i) S1 100"; cases "mapDigit (js_index sn i) S2 100")
     (simp_all only: prod.case option.case sum.inject sum.distinct, blast)


lemma multiRow_fields:
  "arrival (multiRow i ra rs ia t st1 st2 a) = t"
  "serverUsed (multiRow i ra rs ia t st1 st2 a) = Some (chosen a)"
  "waiting (multiRow i ra rs ia t st1 st2 a) = chosenWaiting a"
  "serviceStart1 (multiRow i ra rs ia t st1 st2 a) =
     (if chosen a = Server1 then Some (chosenStart a) else None)"
  "serviceStart2 (multiRow i ra rs ia t st1 st2 a) =
     (if chosen a = Server2 then Some (chosenStart a) else None)"
  "serviceEnd1 (multiRow i ra rs ia t st1 st2 a) =
     (if chosen a = Server1 then Some (chosenEnd a) else None)"
  "serviceEnd2 (multiRow i ra rs ia t st1 st2 a) =
     (if chosen a = Server2 then Some (chosenEnd a) else None)"
  by (simp_all add: multiRow_def)

lemma multiCustomer_Inr:
  assumes "multiCustomer p A S1 S2 an sn i st = Inr st'"
    and "length (table st) = i"
    and "server1End st = busyUntil1 (table st)"
    and "server2End st = busyUntil2 (table st)"
  shows "\<exists>row. table st' = table st @ [row] \<and>
           server1End st' = busyUntil1 (table st') \<and>
           server2End st' = busyUntil2 (table st') \<and>
           assignmentRule p (table st') i"
proof -
  from assms(1) obtain ra rs ia st1 st2 where
    st': "st' = st\<lparr>table := table st @
               [multiRow i ra rs ia (if i = 0 then 0 else arrival (table st ! (i - 1)) + ia) st1 st2
                 (assignServer p (if i = 0 then 0 else arrival (table st ! (i - 1)) + ia) st1 st2
                    (server1End st) (server2End st))],
             server1End := nextServer1End
                 (assignServer p (if i = 0 then 0 else arrival (table st ! (i - 1)) + ia) st1 st2
                    (server1End st) (server2End st)),
             server2End := nextServer2End
                 (assignServer p (if i = 0 then 0 else arrival (table st ! (i - 1)) + ia) st1 st2
                    (server1End st) (server2End st))\<rparr>"
    by (rule multiCustomer_Inr_form)
  define t where "t = (if i = 0 then 0 else arrival (table st ! (i - 1)) + ia)"
  define a where "a = assignServer p t st1 st2 (busyUntil1 (table st)) (busyUntil2 (table st))"
  define row where "row = multiRow i ra rs ia t st1 st2 a"
  have tbl: "table st' = table st @ [row]"
    and e1: "server1End st' = nextServer1End a" and e2: "server2End st' = nextServer2End a"
    unfolding st' row_def a_def t_def assms(3,4) by simp_all
  have b1: "server1End st' = busyUntil1 (table st')"
    unfolding e1 tbl busyUntil_append a_def assignServer_ends
    by (simp add: row_def multiRow_fields a_def)
  have b2: "server2End st' = busyUntil2 (table st')"
    unfolding e2 tbl busyUntil_append a_def assignServer_ends
    by (simp add: row_def multiRow_fields a_def)
  have take: "take i (table st @ [row]) = table st" "(table st @ [row]) ! i = row"
    using assms(2) by (auto simp: nth_append)
  have fields: "arrival row = t" "serverUsed row = Some (chosen a)"
    "waiting row = chosenWaiting a"
    "serviceStart1 row = (if chosen a = Server1 then Some (chosenStart a) else None)"
    "serviceStart2 row = (if chosen a = Server2 then Some (chosenStart a) else None)"
    by (simp_all add: row_def multiRow_fields)
  have "assignmentRule p (table st @ [row]) i"
    unfolding assignmentRule_def Let_def take fields
    using assignServer_rule[of "busyUntil1 (table st)" t "busyUntil2 (table st)" p st1 st2,
        folded a_def]
    by (cases "busyUntil1 (table st) \<le> t"; cases "busyUntil2 (table st) \<le> t";
        cases "busyUntil1 (table st) \<le> busyUntil2 (table st)") auto
  then have rule: "assignmentRule p (table st') i" by (simp only: tbl)
  from tbl b1 b2 rule show ?thesis by blast
qed

lemma multi_loop_rule:
  assumes "forEachM (multiCustomer p A S1 S2 an sn) [0..<n]
             \<lparr>table = [], server1End = 0, server2End = 0\<rparr> = Inr st"
  shows "length (table st) = n \<and> (\<forall>i<n. assignmentRule p (table st) i)"
proof -
  let ?I = "\<lambda>m s. length (table s) = m \<and> server1End s = busyUntil1 (table s) \<and>
              server2End s = busyUntil2 (table s) \<and> (\<forall>i<m. assignmentRule p (table s) i)"
  have "?I (length [0..<n]) st"
  proof (rule forEachM_invariant[OF assms, where I = ?I])
    show "?I 0 \<lparr>table = [], server1End = 0, server2End = 0\<rparr>"
      by (simp add: busyUntil1_def busyUntil2_def)
  next
    fix m s s'
    assume m: "m < length [0..<n]" and inv: "?I m s"
      and step: "multiCustomer p A S1 S2 an sn ([0..<n] ! m) s = Inr s'"
    from m have "[0..<n] ! m = m" by simp
    with step have "multiCustomer p A S1 S2 an sn m s = Inr s'" by simp
    from multiCustomer_Inr[OF this] inv
    obtain row where t': "table s' = table s @ [row]"
      and b: "server1End s' = busyUntil1 (table s')" "server2End s' = busyUntil2 (table s')"
      and new: "assignmentRule p (table s') m" by blast
    have "assignmentRule p (table s') i" if "i < Suc m" for i
    proof (cases "i = m")
      case True
      with new show ?thesis by simp
    next
      case False
      with that have "i < m" by simp
      with inv show ?thesis by (simp add: t' assignmentRule_append)
    qed
    with inv t' b show "?I (Suc m) s'" by simp
  qed
  then show ?thesis by simp
qed


lemma multiCustomer_succeeds:
  assumes A: "buildCumulative arrivalDist 100 = Inr A"
    and S1: "buildCumulative service1Dist 100 = Inr S1"
    and S2: "buildCumulative service2Dist 100 = Inr S2"
    and "i \<le> length an" and "i < length sn"
    and "\<forall>d \<in> set an. integerDigit 100 d" and "\<forall>d \<in> set sn. integerDigit 100 d"
  shows "\<exists>st'. multiCustomer p A S1 S2 an sn i st = Inr st'"
proof -
  from assms(5,7) have d: "integerDigit 100 (sn ! i)" by simp
  from mapRandomToValue_integerDigit[OF S1 _ _ d]
  obtain st1 where st1: "mapRandomToValue (sn ! i) S1 100 = Some st1" by auto
  from mapRandomToValue_integerDigit[OF S2 _ _ d]
  obtain st2 where st2: "mapRandomToValue (sn ! i) S2 100 = Some st2" by auto
  show ?thesis
  proof (cases i)
    case 0
    with st1 st2 assms(5) show ?thesis
      by (simp add: multiCustomer_def js_index_def mapDigit_def Let_def)
  next
    case (Suc k)
    with assms(4,6) have "integerDigit 100 (an ! k)" by simp
    from mapRandomToValue_integerDigit[OF A _ _ this]
    obtain ia where "mapRandomToValue (an ! k) A 100 = Some ia" by auto
    with st1 st2 Suc assms(4,5) show ?thesis
      by (simp add: multiCustomer_def js_index_def mapDigit_def Let_def)
  qed
qed

lemma multi_loop_succeeds:
  assumes A: "buildCumulative arrivalDist 100 = Inr A"
    and S1: "buildCumulative service1Dist 100 = Inr S1"
    and S2: "buildCumulative service2Dist 100 = Inr S2"
    and "n \<le> Suc (length an)" and "n \<le> length sn"
    and "\<forall>d \<in> set an. integerDigit 100 d" and "\<forall>d \<in> set sn. integerDigit 100 d"
  shows "\<exists>st. forEachM (multiCustomer p A S1 S2 an sn) [0..<n] s0 = Inr st"
proof -
  let ?I = "\<lambda>(m::nat) (t::MultiState). True"
  have "\<exists>st. forEachM (multiCustomer p A S1 S2 an sn) [0..<n] s0 = Inr st \<and>
          ?I (length [0..<n]) st"
  proof (rule forEachM_succeeds[where I = ?I])
    show "?I 0 s0" by simp
  next
    fix m t
    assume m: "m < length [0..<n]"
    then have "m \<le> length an" "m < length sn" using assms(4,5) by simp_all
    from multiCustomer_succeeds[OF A S1 S2 this assms(6,7), of p t] m
    show "\<exists>t'. multiCustomer p A S1 S2 an sn ([0..<n] ! m) t = Inr t' \<and> True" by auto
  qed
  then show ?thesis by simp
qed

text \<open>
  Claim C4. For every multi-server run with valid distributions and enough whole digits
  from 1 to 100, the run produces a ledger with one row per customer, and each customer
  is assigned by the rule: when both servers are free at the arrival time, the priority
  server is chosen and waiting is 0; when exactly one is free, that one is chosen and
  waiting is 0; when both are busy, the server with the smaller busy-until time is
  chosen (server 1 on a tie), service starts when that server frees, and waiting is the
  gap between that start and the arrival.
\<close>

theorem multi_server_assignment:
  assumes "1 \<le> \<lfloor>customerCount\<rfloor>"
    and "validDistribution arrivalDist"
    and "validDistribution service1Dist" and "validDistribution service2Dist"
    and "\<lfloor>customerCount\<rfloor> - 1 \<le> int (length arrivalNums)"
    and "\<lfloor>customerCount\<rfloor> \<le> int (length serviceNums)"
    and "\<forall>d \<in> set arrivalNums. integerDigit 100 d"
    and "\<forall>d \<in> set serviceNums. integerDigit 100 d"
  shows "\<exists>tbl. MultiServerPage_runSimulation customerCount priorityServer arrivalDist
             service1Dist service2Dist arrivalNums serviceNums = Inr tbl \<and>
           length tbl = nat \<lfloor>customerCount\<rfloor> \<and>
           (\<forall>i < length tbl. assignmentRule priorityServer tbl i)"
proof -
  let ?n = "nat \<lfloor>customerCount\<rfloor>"
  let ?A = "assignRanges 100 0 (cumulate 0 arrivalDist)"
  let ?S1 = "assignRanges 100 0 (cumulate 0 service1Dist)"
  let ?S2 = "assignRanges 100 0 (cumulate 0 service2Dist)"
  have A: "buildCumulative arrivalDist 100 = Inr ?A"
    and S1: "buildCumulative service1Dist 100 = Inr ?S1"
    and S2: "buildCumulative service2Dist 100 = Inr ?S2"
    using assms(2,3,4) by (simp_all add: buildCumulative_valid)
  have "?n \<le> Suc (length arrivalNums)" "?n \<le> length serviceNums"
    using assms(5,6) by linarith+
  from multi_loop_succeeds[OF A S1 S2 this assms(7,8)]
  obtain st where loop: "forEachM (multiCustomer priorityServer ?A ?S1 ?S2 arrivalNums serviceNums)
      [0..<?n] \<lparr>table = [], server1End = 0, server2End = 0\<rparr> = Inr st"
    by blast
  have nodigit: "\<not> list_ex (\<lambda>d. d < 1 \<or> d > 100) (arrivalNums @ serviceNums)"
    using assms(7,8) by (auto simp: list_ex_iff integerDigit_def)
  have run: "MultiServerPage_runSimulation customerCount priorityServer arrivalDist
      service1Dist service2Dist arrivalNums serviceNums = Inr (table st)"
    unfolding MultiServerPage_runSimulation_def Let_def
    using assms(1,5,6) nodigit loop by (simp add: A S1 S2)
  from multi_loop_rule[OF loop] run show ?thesis by auto
qed

text \<open>Three customers one minute apart, each served for five minutes: the third finds both servers busy.\<close>

lemma multi_run_value:
  "MultiServerPage_runSimulation 3 Server1 [\<lparr>val = 1, probability = 1\<rparr>]
       [\<lparr>val = 5, probability = 1\<rparr>] [\<lparr>val = 5, probability = 1\<rparr>] [20, 40] [10, 50, 90] =
     Inr [\<lparr>customer = 1, randArrival = 0, interarrival = 0, arrival = 0, randService = 10,
            waiting = 0, timeInSystem = 5, service1 = Some 5, serviceStart1 = Some 0,
            serviceEnd1 = Some 5, service2 = None, serviceStart2 = None, serviceEnd2 = None,
            idle1 = 0, idle2 = 0, serverUsed = Some Server1\<rparr>,
          \<lparr>customer = 2, randArrival = 20, interarrival = 1, arrival = 1, randService = 50,
            waiting = 0, timeInSystem = 5, service1 = None, serviceStart1 = None,
            serviceEnd1 = None, service2 = Some 5, serviceStart2 = Some 1, serviceEnd2 = Some 6,
            idle1 = 0, idle2 = 1, serverUsed = Some Server2\<rparr>,
          \<lparr>customer = 3, randArrival = 40, interarrival = 1, arrival = 2, randService = 90,
            waiting = 3, timeInSystem = 8, service1 = Some 5, serviceStart1 = Some 5,
            serviceEnd1 = Some 10, service2 = None, serviceStart2 = None, serviceEnd2 = None,
            idle1 = 0, idle2 = 0, serverUsed = Some Server1\<rparr>]"
  by (simp add: MultiServerPage_runSimulation_def buildCumulative_def tolerance_def
      js_round_def multiCustomer_def js_index_def mapDigit_def mapRandomToValue_def
      inRange_def assignServer_def multiRow_def Let_def upt_rec)

theorem multi_server_assignment_witness:
  "validDistribution [\<lparr>val = 1, probability = 1\<rparr>] \<and>
   validDistribution [\<lparr>val = 5, probability = 1\<rparr>] \<and>
   integerDigit 100 20 \<and> integerDigit 100 40 \<and>
   integerDigit 100 10 \<and> integerDigit 100 50 \<and> integerDigit 100 90 \<and>
   (\<exists>tbl. MultiServerPage_runSimulation 3 Server1 [\<lparr>val = 1, probability = 1\<rparr>]
            [\<lparr>val = 5, probability = 1\<rparr>] [\<lparr>val = 5, probability = 1\<rparr>]
            [20, 40] [10, 50, 90] = Inr tbl \<and>
          length tbl = 3 \<and>
          arrival (tbl ! 2) = 2 \<and> busyUntil1 (take 2 tbl) = 5 \<and> busyUntil2 (take 2 tbl) = 6 \<and>
          serverUsed (tbl ! 2) = Some Server1 \<and> serviceStart1 (tbl ! 2) = Some 5 \<and>
          waiting (tbl ! 2) = 3 \<and>
          assignmentRule Server1 tbl 2)"
proof -
  have h: "validDistribution [\<lparr>val = 1, probability = 1\<rparr>]"
    "validDistribution [\<lparr>val = 5, probability = 1\<rparr>]"
    "integerDigit 100 20" "integerDigit 100 40"
    "integerDigit 100 10" "integerDigit 100 50" "integerDigit 100 90"
    by (simp_all add: validDistribution_def tolerance_def integerDigit_def)
  from multi_server_assignment [of 3 "[\<lparr>val = 1, probability = 1\<rparr>]"
      "[\<lparr>val = 5, probability = 1\<rparr>]" "[\<lparr>val = 5, probability = 1\<rparr>]"
      "[20, 40]" "[10, 50, 90]" Server1] h
  obtain tbl where run: "MultiServerPage_runSimulation 3 Server1 [\<lparr>val = 1, probability = 1\<rparr>]
            [\<lparr>val = 5, probability = 1\<rparr>] [\<lparr>val = 5, probability = 1\<rparr>]
            [20, 40] [10, 50, 90] = Inr tbl"
    and len: "length tbl = 3"
    and rule: "\<forall>i < length tbl. assignmentRule Server1 tbl i"
    by auto
  from rule len have r2: "assignmentRule Server1 tbl 2" by simp
  from run have vals: "arrival (tbl ! 2) = 2" "busyUntil1 (take 2 tbl) = 5"
    "busyUntil2 (take 2 tbl) = 6" "serverUsed (tbl ! 2) = Some Server1"
    "serviceStart1 (tbl ! 2) = Some 5" "waiting (tbl ! 2) = 3"
    unfolding multi_run_value by (auto simp: busyUntil1_def busyUntil2_def)
  from h run len r2 vals show ?thesis by blast
qed

section \<open>Properties of the inventory simulator\<close>

lemma inventoryDay_Inr_form:
  assumes "inventoryDay days invLimit demandRows leadTimeRows demandNums leadTimeNums (c, d) st
             = Inr st'"
  obtains rd demandToday rv where
    "js_index demandNums (demandIndex st) = Some rd"
    "mapRandomToValue rd demandRows 100 = Some demandToday"
    "reviewOrder days invLimit leadTimeRows leadTimeNums c d
        (fst (dayDemand (receivedStock c d st) (carriedShortage (table st)) demandToday))
        (snd (dayDemand (receivedStock c d st) (carriedShortage (table st)) demandToday))
        (nextArrivalDisplay c d (stillPending c d st)) (stillPending c d st)
        (leadTimeIndex st) = Inr rv"
    "st' = st\<lparr>table := table st @
                 [inventoryRow c d (receivedStock c d st) rd demandToday
                    (fst (dayDemand (receivedStock c d st) (carriedShortage (table st)) demandToday))
                    (snd (dayDemand (receivedStock c d st) (carriedShortage (table st)) demandToday))
                    rv],
               inventory :=
                 fst (dayDemand (receivedStock c d st) (carriedShortage (table st)) demandToday),
               pendingOrders := reviewPending rv,
               demandIndex := demandIndex st + 1,
               leadTimeIndex := reviewLeadTimeIndex rv\<rparr>"
proof -
  from assms obtain rd where rd: "js_index demandNums (demandIndex st) = Some rd"
    unfolding inventoryDay_def Let_def
    by (cases "js_index demandNums (demandIndex st)") simp_all
  from assms rd obtain demandToday where dm: "mapRandomToValue rd demandRows 100 = Some demandToday"
    unfolding inventoryDay_def Let_def
    by (cases "mapRandomToValue rd demandRows 100") (simp_all add: mapDigit_def)
  from assms rd dm obtain rv where
    "reviewOrder days invLimit leadTimeRows leadTimeNums c d
        (fst (dayDemand (receivedStock c d st) (carriedShortage (table st)) demandToday))
        (snd (dayDemand (receivedStock c d st) (carriedShortage (table st)) demandToday))
        (nextArrivalDisplay c d (stillPending c d st)) (stillPending c d st)
        (leadTimeIndex st) = Inr rv"
    unfolding inventoryDay_def Let_def
    by (cases "reviewOrder days invLimit leadTimeRows leadTimeNums c d
        (fst (dayDemand (receivedStock c d st) (carriedShortage (table st)) demandToday))
        (snd (dayDemand (receivedStock c d st) (carriedShortage (table st)) demandToday))
        (nextArrivalDisplay c d (stillPending c d st)) (stillPending c d st)
        (leadTimeIndex st)") (simp_all add: mapDigit_def)
  with assms rd dm show ?thesis
    unfolding inventoryDay_def Let_def
    by (intro that[of rd demandToday rv]) (simp_all add: mapDigit_def)
qed

lemma dayDemand_facts:
  assumes "0 \<le> stock0" and "0 \<le> acc" and "0 \<le> demandToday"
  shows "0 \<le> fst (dayDemand stock0 acc demandToday)"
    and "0 \<le> snd (dayDemand stock0 acc demandToday)"
    and "fst (dayDemand stock0 acc demandToday) = 0 \<or> snd (dayDemand stock0 acc demandToday) = 0"
  using assms by (auto simp: dayDemand_def settleBacklog_def satisfyDemand_def Let_def)

lemma reviewOrder_pending:
  assumes "reviewOrder days invLimit leadTimeRows leadTimeNums c d E S du pending lt = Inr rv"
    and "\<forall>ord \<in> set pending. 0 < quantity ord"
  shows "\<forall>ord \<in> set (reviewPending rv). 0 < quantity ord"
  using assms
  by (auto simp: reviewOrder_def Let_def split: if_splits option.splits)

lemma val_cumulate: "map val (cumulate s d) = map val d"
  by (induction d arbitrary: s) (simp_all add: Let_def)

lemma val_assignRanges: "map val (assignRanges scale p rows) = map val rows"
  by (induction rows arbitrary: p) (simp_all add: Let_def)

lemma buildCumulative_vals:
  "buildCumulative distRows scale = Inr rows \<Longrightarrow> map val rows = map val distRows"
  by (auto simp: buildCumulative_def Let_def val_cumulate val_assignRanges split: if_splits)

lemma mapRandomToValue_val:
  "mapRandomToValue x rows scale = Some v \<Longrightarrow> v \<in> set (map val rows)"
  by (auto simp: mapRandomToValue_def Let_def find_Some_iff split: option.splits)

lemma received_nonneg:
  assumes "\<forall>ord \<in> set ps. 0 < quantity ord" and "0 \<le> (a::real)"
  shows "0 \<le> foldl (\<lambda>a ord. a + quantity ord) a ps"
  using assms
proof (induction ps arbitrary: a)
  case Nil
  then show ?case by simp
next
  case (Cons p ps)
  from Cons.prems have "0 \<le> a + quantity p" by simp
  with Cons show ?case by simp
qed

lemma carriedShortage_nonneg:
  "\<forall>row \<in> set tbl. 0 \<le> shortage row \<Longrightarrow> 0 \<le> carriedShortage tbl"
  by (simp add: carriedShortage_def)

lemma inventoryRow_fields:
  "endingInventory (inventoryRow c d b rd dm E S rv) = E"
  "shortage (inventoryRow c d b rd dm E S rv) = S"
  "orderQuantity (inventoryRow c d b rd dm E S rv) = reviewQuantity rv"
  "randLeadTime (inventoryRow c d b rd dm E S rv) = reviewRandLeadTime rv"
  "cycle (inventoryRow c d b rd dm E S rv) = c"
  "day (inventoryRow c d b rd dm E S rv) = d"
  by (simp_all add: inventoryRow_def)

lemma inventoryDay_invariant:
  assumes step: "inventoryDay days invLimit demandRows leadTimeRows demandNums leadTimeNums cd st
             = Inr st'"
    and inv: "dayInvariant st"
    and dem: "\<forall>v \<in> set (map val demandRows). 0 \<le> v"
  shows "dayInvariant st'"
proof -
  obtain c d where cd: "cd = (c, d)" by (cases cd)
  from step[unfolded cd] obtain rd demandToday rv where
    dm: "mapRandomToValue rd demandRows 100 = Some demandToday"
    and rv: "reviewOrder days invLimit leadTimeRows leadTimeNums c d
        (fst (dayDemand (receivedStock c d st) (carriedShortage (table st)) demandToday))
        (snd (dayDemand (receivedStock c d st) (carriedShortage (table st)) demandToday))
        (nextArrivalDisplay c d (stillPending c d st)) (stillPending c d st)
        (leadTimeIndex st) = Inr rv"
    and st': "st' = st\<lparr>table := table st @
                 [inventoryRow c d (receivedStock c d st) rd demandToday
                    (fst (dayDemand (receivedStock c d st) (carriedShortage (table st)) demandToday))
                    (snd (dayDemand (receivedStock c d st) (carriedShortage (table st)) demandToday))
                    rv],
               inventory :=
                 fst (dayDemand (receivedStock c d st) (carriedShortage (table st)) demandToday),
               pendingOrders := reviewPending rv,
               demandIndex := demandIndex st + 1,
               leadTimeIndex := reviewLeadTimeIndex rv\<rparr>"
    by (rule inventoryDay_Inr_form)
  from inv have i0: "0 \<le> inventory st"
    and pq: "\<forall>ord \<in> set (pendingOrders st). 0 < quantity ord"
    and rows: "\<forall>row \<in> set (table st).
        0 \<le> shortage row \<and> (endingInventory row = 0 \<or> shortage row = 0)"
    by (simp_all add: dayInvariant_def)
  from pq have "0 \<le> foldl (\<lambda>a ord. a + quantity ord) 0
      (filter (arrivesToday c d) (pendingOrders st))"
    by (intro received_nonneg) simp_all
  with i0 have s0: "0 \<le> receivedStock c d st" by (simp add: receivedStock_def Let_def)
  from rows have a0: "0 \<le> carriedShortage (table st)" by (intro carriedShortage_nonneg) simp
  from mapRandomToValue_val[OF dm] dem have d0: "0 \<le> demandToday" by blast
  note facts = dayDemand_facts[OF s0 a0 d0]
  from pq have "\<forall>ord \<in> set (stillPending c d st). 0 < quantity ord"
    by (simp add: stillPending_def)
  from reviewOrder_pending[OF rv this]
  have pq': "\<forall>ord \<in> set (reviewPending rv). 0 < quantity ord" .
  from facts rows pq' show ?thesis
    unfolding dayInvariant_def st' by (simp add: inventoryRow_fields)
qed

lemma inventory_loop_invariant:
  assumes "forEachM (inventoryDay days invLimit demandRows leadTimeRows demandNums leadTimeNums)
             ds s0 = Inr st"
    and "dayInvariant s0"
    and "\<forall>v \<in> set (map val demandRows). 0 \<le> v"
  shows "dayInvariant st"
proof -
  have "(\<lambda>(n::nat) s. dayInvariant s) (length ds) st"
  proof (rule forEachM_invariant[OF assms(1)])
    show "dayInvariant s0" by (rule assms(2))
  next
    fix n t t'
    assume i: "dayInvariant t"
      and s: "inventoryDay days invLimit demandRows leadTimeRows demandNums leadTimeNums (ds ! n) t
             = Inr t'"
    from s i assms(3) show "dayInvariant t'" by (rule inventoryDay_invariant)
  qed
  then show ?thesis .
qed

lemma run_Inr_form:
  assumes "InventoryPage_runSimulation numCycles daysPerCycle initialInventory inventoryLimit
       initialOrderQuantity initialOrderLeadTime demandDist leadTimeDist demandNums leadTimeNums
       = Inr tbl"
  obtains demandRows leadTimeRows st where
    "buildCumulative demandDist 100 = Inr demandRows"
    "buildCumulative leadTimeDist 10 = Inr leadTimeRows"
    "1 \<le> \<lfloor>numCycles\<rfloor>" "1 \<le> \<lfloor>daysPerCycle\<rfloor>" "0 \<le> \<lfloor>initialInventory\<rfloor>"
    "\<lfloor>numCycles\<rfloor> * \<lfloor>daysPerCycle\<rfloor> \<le> int (length demandNums)"
    "forEachM (inventoryDay \<lfloor>daysPerCycle\<rfloor> \<lfloor>inventoryLimit\<rfloor> demandRows leadTimeRows
                 demandNums leadTimeNums)
       (schedule \<lfloor>numCycles\<rfloor> \<lfloor>daysPerCycle\<rfloor>)
       \<lparr>table = [], inventory = of_int \<lfloor>initialInventory\<rfloor>,
         pendingOrders = initialPendingOrders \<lfloor>initialOrderQuantity\<rfloor> \<lfloor>initialOrderLeadTime\<rfloor>,
         demandIndex = 0, leadTimeIndex = 0\<rparr> = Inr st"
    "tbl = table st"
  using assms unfolding InventoryPage_runSimulation_def Let_def
  by (auto split: if_splits sum.splits)

lemma js_rem_floor:
  assumes "0 \<le> a" and "0 < b"
  shows "js_rem a b = a - b * of_int \<lfloor>a / b\<rfloor>"
proof -
  from assms have "0 \<le> a / b" by simp
  then show ?thesis by (simp only: js_rem_def js_trunc_def if_True)
qed


lemma reviewOrder_Inr:
  assumes r: "reviewOrder days invLimit leadTimeRows leadTimeNums c d E S du pending lt = Inr rv"
  shows "reviewQuantity rv = (if d = days then Some (of_int invLimit - E + S) else None) \<and>
         (if d = days \<and> 0 < of_int invLimit - E + S \<and> lt < length leadTimeNums
          then \<exists>leadTime. mapRandomToValue (leadTimeNums ! lt) leadTimeRows 10 = Some leadTime \<and>
                 reviewPending rv =
                   pending @ [enqueuedOrder days c d (of_int invLimit - E + S) leadTime] \<and>
                 reviewRandLeadTime rv = Some (leadTimeNums ! lt) \<and>
                 reviewLeadTimeIndex rv = lt + 1
          else reviewPending rv = pending \<and> reviewRandLeadTime rv = None \<and>
               reviewLeadTimeIndex rv = lt)"
proof (cases "d = days \<and> 0 < of_int invLimit - E + S \<and> lt < length leadTimeNums")
  case False
  with r have "rv = \<lparr>reviewQuantity = (if d = days then Some (of_int invLimit - E + S) else None),
      reviewRandLeadTime = None, reviewDaysUntil = du, reviewPending = pending,
      reviewLeadTimeIndex = lt\<rparr>"
    unfolding reviewOrder_def Let_def by (auto split: if_splits)
  with False show ?thesis by simp
next
  case True
  show ?thesis
  proof (cases "mapRandomToValue (leadTimeNums ! lt) leadTimeRows 10")
    case None
    with r True show ?thesis unfolding reviewOrder_def Let_def by simp
  next
    case (Some leadTime)
    with r True have "rv = \<lparr>reviewQuantity = Some (of_int invLimit - E + S),
        reviewRandLeadTime = Some (leadTimeNums ! lt), reviewDaysUntil = Some leadTime,
        reviewPending = pending @ [enqueuedOrder days c d (of_int invLimit - E + S) leadTime],
        reviewLeadTimeIndex = lt + 1\<rparr>"
      unfolding reviewOrder_def enqueuedOrder_def Let_def by simp
    with True Some show ?thesis by simp
  qed
qed

lemma inventoryDay_review:
  assumes "inventoryDay days invLimit demandRows leadTimeRows demandNums leadTimeNums (c, d) st
             = Inr st'"
  shows "\<exists>row. table st' = table st @ [row] \<and> cycle row = c \<and> day row = d \<and>
           orderQuantity row =
             (if d = days then Some (of_int invLimit - endingInventory row + shortage row)
              else None) \<and>
           (if d = days \<and> 0 < of_int invLimit - endingInventory row + shortage row \<and>
               leadTimeIndex st < length leadTimeNums
            then \<exists>leadTime.
                   mapRandomToValue (leadTimeNums ! leadTimeIndex st) leadTimeRows 10 =
                     Some leadTime \<and>
                   randLeadTime row = Some (leadTimeNums ! leadTimeIndex st) \<and>
                   pendingOrders st' = stillPending c d st @
                     [enqueuedOrder days c d
                        (of_int invLimit - endingInventory row + shortage row) leadTime]
            else randLeadTime row = None \<and> pendingOrders st' = stillPending c d st)"
proof -
  from assms obtain rd demandToday rv where
    rv: "reviewOrder days invLimit leadTimeRows leadTimeNums c d
        (fst (dayDemand (receivedStock c d st) (carriedShortage (table st)) demandToday))
        (snd (dayDemand (receivedStock c d st) (carriedShortage (table st)) demandToday))
        (nextArrivalDisplay c d (stillPending c d st)) (stillPending c d st)
        (leadTimeIndex st) = Inr rv"
    and st': "st' = st\<lparr>table := table st @
                 [inventoryRow c d (receivedStock c d st) rd demandToday
                    (fst (dayDemand (receivedStock c d st) (carriedShortage (table st)) demandToday))
                    (snd (dayDemand (receivedStock c d st) (carriedShortage (table st)) demandToday))
                    rv],
               inventory :=
                 fst (dayDemand (receivedStock c d st) (carriedShortage (table st)) demandToday),
               pendingOrders := reviewPending rv,
               demandIndex := demandIndex st + 1,
               leadTimeIndex := reviewLeadTimeIndex rv\<rparr>"
    by (rule inventoryDay_Inr_form)
  define E where "E = fst (dayDemand (receivedStock c d st) (carriedShortage (table st)) demandToday)"
  define S where "S = snd (dayDemand (receivedStock c d st) (carriedShortage (table st)) demandToday)"
  define row where "row = inventoryRow c d (receivedStock c d st) rd demandToday E S rv"
  have t: "table st' = table st @ [row]" and p: "pendingOrders st' = reviewPending rv"
    unfolding st' row_def E_def S_def by simp_all
  have f: "cycle row = c" "day row = d" "endingInventory row = E" "shortage row = S"
    "orderQuantity row = reviewQuantity rv" "randLeadTime row = reviewRandLeadTime rv"
    by (simp_all add: row_def inventoryRow_fields)
  note ro = reviewOrder_Inr[OF rv[folded E_def S_def]]
  have "table st' = table st @ [row] \<and> cycle row = c \<and> day row = d \<and>
           orderQuantity row =
             (if d = days then Some (of_int invLimit - endingInventory row + shortage row)
              else None) \<and>
           (if d = days \<and> 0 < of_int invLimit - endingInventory row + shortage row \<and>
               leadTimeIndex st < length leadTimeNums
            then \<exists>leadTime.
                   mapRandomToValue (leadTimeNums ! leadTimeIndex st) leadTimeRows 10 =
                     Some leadTime \<and>
                   randLeadTime row = Some (leadTimeNums ! leadTimeIndex st) \<and>
                   pendingOrders st' = stillPending c d st @
                     [enqueuedOrder days c d
                        (of_int invLimit - endingInventory row + shortage row) leadTime]
            else randLeadTime row = None \<and> pendingOrders st' = stillPending c d st)"
    unfolding f p
  proof (cases "d = days \<and> 0 < of_int invLimit - E + S \<and> leadTimeIndex st < length leadTimeNums")
    case True
    with ro t show "table st' = table st @ [row] \<and> c = c \<and> d = d \<and>
      reviewQuantity rv = (if d = days then Some (real_of_int invLimit - E + S) else None) \<and>
      (if d = days \<and> 0 < real_of_int invLimit - E + S \<and> leadTimeIndex st < length leadTimeNums
       then \<exists>leadTime.
            mapRandomToValue (leadTimeNums ! leadTimeIndex st) leadTimeRows 10 = Some leadTime \<and>
            reviewRandLeadTime rv = Some (leadTimeNums ! leadTimeIndex st) \<and>
            reviewPending rv =
            stillPending c d st @ [enqueuedOrder days c d (real_of_int invLimit - E + S) leadTime]
       else reviewRandLeadTime rv = None \<and> reviewPending rv = stillPending c d st)"
      by auto
  next
    case False
    with ro t show "table st' = table st @ [row] \<and> c = c \<and> d = d \<and>
      reviewQuantity rv = (if d = days then Some (real_of_int invLimit - E + S) else None) \<and>
      (if d = days \<and> 0 < real_of_int invLimit - E + S \<and> leadTimeIndex st < length leadTimeNums
       then \<exists>leadTime.
            mapRandomToValue (leadTimeNums ! leadTimeIndex st) leadTimeRows 10 = Some leadTime \<and>
            reviewRandLeadTime rv = Some (leadTimeNums ! leadTimeIndex st) \<and>
            reviewPending rv =
            stillPending c d st @ [enqueuedOrder days c d (real_of_int invLimit - E + S) leadTime]
       else reviewRandLeadTime rv = None \<and> reviewPending rv = stillPending c d st)"
      by simp
  qed
  then show ?thesis by (rule exI)
qed

lemma schedule_length: "length (schedule cycles days) = nat cycles * nat days"
proof -
  have "length (schedule cycles days) = sum_list (map (\<lambda>c. nat days) [1..cycles])"
    by (simp add: schedule_def length_concat comp_def)
  also have "\<dots> = nat cycles * nat days" by (simp add: sum_list_triv)
  finally show ?thesis .
qed

lemma reviewOrder_succeeds:
  assumes L: "buildCumulative leadTimeDist 10 = Inr leadTimeRows"
    and "\<forall>x \<in> set leadTimeNums. integerDigit 10 x"
  shows "\<exists>rv. reviewOrder days invLimit leadTimeRows leadTimeNums c d E S du pending lt = Inr rv"
proof (cases "d = days \<and> 0 < of_int invLimit - E + S \<and> lt < length leadTimeNums")
  case False
  then show ?thesis unfolding reviewOrder_def Let_def by auto
next
  case True
  with assms(2) have "integerDigit 10 (leadTimeNums ! lt)" by simp
  from mapRandomToValue_integerDigit[OF L _ _ this]
  obtain v where "mapRandomToValue (leadTimeNums ! lt) leadTimeRows 10 = Some v" by auto
  with True show ?thesis unfolding reviewOrder_def Let_def by simp
qed

lemma inventoryDay_succeeds:
  assumes D: "buildCumulative demandDist 100 = Inr demandRows"
    and L: "buildCumulative leadTimeDist 10 = Inr leadTimeRows"
    and "demandIndex st < length demandNums"
    and "\<forall>x \<in> set demandNums. integerDigit 100 x"
    and "\<forall>x \<in> set leadTimeNums. integerDigit 10 x"
  shows "\<exists>st'. inventoryDay days invLimit demandRows leadTimeRows demandNums leadTimeNums cd st
            = Inr st' \<and>
          demandIndex st' = demandIndex st + 1 \<and> length (table st') = length (table st) + 1"
proof -
  from assms(3,4) have "integerDigit 100 (demandNums ! demandIndex st)" by simp
  from mapRandomToValue_integerDigit[OF D _ _ this]
  obtain dm where dm: "mapRandomToValue (demandNums ! demandIndex st) demandRows 100 = Some dm"
    by auto
  from reviewOrder_succeeds[OF L assms(5)]
  obtain rv where "reviewOrder days invLimit leadTimeRows leadTimeNums (fst cd) (snd cd)
        (fst (dayDemand (receivedStock (fst cd) (snd cd) st) (carriedShortage (table st)) dm))
        (snd (dayDemand (receivedStock (fst cd) (snd cd) st) (carriedShortage (table st)) dm))
        (nextArrivalDisplay (fst cd) (snd cd) (stillPending (fst cd) (snd cd) st))
        (stillPending (fst cd) (snd cd) st) (leadTimeIndex st) = Inr rv"
    by blast
  with dm assms(3) show ?thesis
    unfolding inventoryDay_def Let_def by (simp add: js_index_def mapDigit_def)
qed

lemma inventory_loop_succeeds:
  assumes D: "buildCumulative demandDist 100 = Inr demandRows"
    and L: "buildCumulative leadTimeDist 10 = Inr leadTimeRows"
    and "length ds \<le> length demandNums"
    and "\<forall>x \<in> set demandNums. integerDigit 100 x"
    and "\<forall>x \<in> set leadTimeNums. integerDigit 10 x"
    and "demandIndex s0 = 0" and "table s0 = []"
  shows "\<exists>st. forEachM (inventoryDay days invLimit demandRows leadTimeRows demandNums
                  leadTimeNums) ds s0 = Inr st \<and> length (table st) = length ds"
proof -
  let ?I = "\<lambda>n (s::InventoryState). demandIndex s = n \<and> length (table s) = n"
  have "\<exists>st. forEachM (inventoryDay days invLimit demandRows leadTimeRows demandNums
                  leadTimeNums) ds s0 = Inr st \<and> ?I (length ds) st"
  proof (rule forEachM_succeeds[where I = ?I])
    show "?I 0 s0" using assms(6,7) by simp
  next
    fix n t
    assume n: "n < length ds" and i: "?I n t"
    with assms(3) have "demandIndex t < length demandNums" by simp
    from inventoryDay_succeeds[OF D L this assms(4,5), of days invLimit "ds ! n"] i
    show "\<exists>t'. inventoryDay days invLimit demandRows leadTimeRows demandNums leadTimeNums
             (ds ! n) t = Inr t' \<and> ?I (Suc n) t'"
      by auto
  qed
  then show ?thesis by blast
qed

lemma inventory_run_succeeds:
  assumes "1 \<le> \<lfloor>numCycles\<rfloor>" and "1 \<le> \<lfloor>daysPerCycle\<rfloor>"
    and "0 \<le> \<lfloor>initialInventory\<rfloor>"
    and "reorderPoint demandDist leadTimeDist < \<lfloor>inventoryLimit\<rfloor>"
    and "0 \<le> \<lfloor>initialOrderQuantity\<rfloor>" and "0 \<le> \<lfloor>initialOrderLeadTime\<rfloor>"
    and "validDistribution demandDist" and "validDistribution leadTimeDist"
    and "\<lfloor>numCycles\<rfloor> * \<lfloor>daysPerCycle\<rfloor> \<le> int (length demandNums)"
    and "\<forall>x \<in> set demandNums. integerDigit 100 x"
    and "\<forall>x \<in> set leadTimeNums. integerDigit 10 x"
  shows "\<exists>tbl. InventoryPage_runSimulation numCycles daysPerCycle initialInventory
             inventoryLimit initialOrderQuantity initialOrderLeadTime demandDist leadTimeDist
             demandNums leadTimeNums = Inr tbl \<and>
           length tbl = nat (\<lfloor>numCycles\<rfloor> * \<lfloor>daysPerCycle\<rfloor>)"
proof -
  let ?D = "assignRanges 100 0 (cumulate 0 demandDist)"
  let ?L = "assignRanges 10 0 (cumulate 0 leadTimeDist)"
  let ?s0 = "\<lparr>table = [], inventory = of_int \<lfloor>initialInventory\<rfloor>,
         pendingOrders = initialPendingOrders \<lfloor>initialOrderQuantity\<rfloor> \<lfloor>initialOrderLeadTime\<rfloor>,
         demandIndex = 0, leadTimeIndex = 0\<rparr>"
  have D: "buildCumulative demandDist 100 = Inr ?D"
    and L: "buildCumulative leadTimeDist 10 = Inr ?L"
    using assms(7,8) by (simp_all add: buildCumulative_valid)
  have len: "length (schedule \<lfloor>numCycles\<rfloor> \<lfloor>daysPerCycle\<rfloor>) =
      nat (\<lfloor>numCycles\<rfloor> * \<lfloor>daysPerCycle\<rfloor>)"
    using assms(1,2) by (simp add: schedule_length nat_mult_distrib)
  with assms(9) have "length (schedule \<lfloor>numCycles\<rfloor> \<lfloor>daysPerCycle\<rfloor>) \<le> length demandNums"
    by linarith
  from inventory_loop_succeeds[OF D L this assms(10,11), of ?s0 "\<lfloor>daysPerCycle\<rfloor>"
      "\<lfloor>inventoryLimit\<rfloor>"]
  obtain st where loop: "forEachM (inventoryDay \<lfloor>daysPerCycle\<rfloor> \<lfloor>inventoryLimit\<rfloor> ?D ?L
      demandNums leadTimeNums) (schedule \<lfloor>numCycles\<rfloor> \<lfloor>daysPerCycle\<rfloor>) ?s0 = Inr st"
    and l: "length (table st) = length (schedule \<lfloor>numCycles\<rfloor> \<lfloor>daysPerCycle\<rfloor>)"
    by auto
  have nd: "\<not> list_ex (\<lambda>d. d < 1 \<or> d > 100) demandNums"
    "\<not> list_ex (\<lambda>d. d < 1 \<or> d > 10) leadTimeNums"
    using assms(10,11) by (auto simp: list_ex_iff integerDigit_def)
  have "InventoryPage_runSimulation numCycles daysPerCycle initialInventory
             inventoryLimit initialOrderQuantity initialOrderLeadTime demandDist leadTimeDist
             demandNums leadTimeNums = Inr (table st)"
    unfolding InventoryPage_runSimulation_def Let_def
    using assms(1-6,9) nd loop by (simp add: D L)
  with l len show ?thesis by simp
qed

lemma inventory_run_short_demand:
  assumes "int (length demandNums) < \<lfloor>numCycles\<rfloor> * \<lfloor>daysPerCycle\<rfloor>"
  shows "\<exists>e. InventoryPage_runSimulation numCycles daysPerCycle initialInventory
             inventoryLimit initialOrderQuantity initialOrderLeadTime demandDist leadTimeDist
             demandNums leadTimeNums = Inl e"
  using assms unfolding InventoryPage_runSimulation_def Let_def
  by (auto split: sum.splits)

lemma inventory_run_short_demand_error:
  assumes "1 \<le> \<lfloor>numCycles\<rfloor>" and "1 \<le> \<lfloor>daysPerCycle\<rfloor>"
    and "0 \<le> \<lfloor>initialInventory\<rfloor>"
    and "reorderPoint demandDist leadTimeDist < \<lfloor>inventoryLimit\<rfloor>"
    and "0 \<le> \<lfloor>initialOrderQuantity\<rfloor>" and "0 \<le> \<lfloor>initialOrderLeadTime\<rfloor>"
    and "validDistribution demandDist" and "validDistribution leadTimeDist"
    and "int (length demandNums) < \<lfloor>numCycles\<rfloor> * \<lfloor>daysPerCycle\<rfloor>"
  shows "InventoryPage_runSimulation numCycles daysPerCycle initialInventory
             inventoryLimit initialOrderQuantity initialOrderLeadTime demandDist leadTimeDist
             demandNums leadTimeNums = Inl NotEnoughDemandDigits"
  unfolding InventoryPage_runSimulation_def Let_def
  using assms(1-6,9) buildCumulative_valid[OF assms(7)] buildCumulative_valid[OF assms(8)]
  by simp

lemma inventory_run_value:
  "InventoryPage_runSimulation 2 2 3 11 8 1
       [\<lparr>val = 2, probability = 1 / 2\<rparr>, \<lparr>val = 4, probability = 1 / 2\<rparr>]
       [\<lparr>val = 1, probability = 1\<rparr>] [60, 60, 10, 10] [5] =
     Inr [\<lparr>cycle = 1, day = 1, beginningInventory = 3, randDemand = 60, demand = 4,
            endingInventory = 0, shortage = 1, orderQuantity = None, randLeadTime = None,
            daysUntilArrival = Some 0\<rparr>,
          \<lparr>cycle = 1, day = 2, beginningInventory = 8, randDemand = 60, demand = 4,
            endingInventory = 3, shortage = 0, orderQuantity = Some 8, randLeadTime = Some 5,
            daysUntilArrival = Some 1\<rparr>,
          \<lparr>cycle = 2, day = 1, beginningInventory = 3, randDemand = 10, demand = 2,
            endingInventory = 1, shortage = 0, orderQuantity = None, randLeadTime = None,
            daysUntilArrival = Some 0\<rparr>,
          \<lparr>cycle = 2, day = 2, beginningInventory = 9, randDemand = 10, demand = 2,
            endingInventory = 7, shortage = 0, orderQuantity = Some 4, randLeadTime = None,
            daysUntilArrival = None\<rparr>]"
  by (simp add: InventoryPage_runSimulation_def reorderPoint_def buildCumulative_def
      tolerance_def js_round_def schedule_def initialPendingOrders_def inventoryDay_def
      receivedStock_def stillPending_def arrivesToday_def nextArrivalDisplay_def
      carriedShortage_def dayDemand_def settleBacklog_def satisfyDemand_def reviewOrder_def
      inventoryRow_def js_index_def mapDigit_def mapRandomToValue_def inRange_def
      js_rem_def js_trunc_def Let_def upto_rec1)

subsection \<open>The periodic review of a run\<close>

text \<open>
  On non-negative days the remainder of the program is the mathematical one, so for a
  lead time that is not negative the order the program enqueues is the one the
  specification describes. The ledger of a loop grows by one row per day, in the order
  of the schedule, and keeps the rows it has.
\<close>

lemma enqueuedOrder_spec:
  assumes "1 \<le> c" and "1 \<le> d" and "1 \<le> days" and "0 \<le> leadTime"
  shows "enqueuedOrder days c d q leadTime = orderArrival days c d q leadTime"
proof -
  from assms(1,3) have "0 \<le> (c - 1) * days" by simp
  with assms(2) have "0 \<le> (c - 1) * days + d" by linarith
  then have "(0::real) \<le> of_int ((c - 1) * days + d)" by (simp only: of_int_0_le_iff)
  with assms(4) have a: "0 \<le> real_of_int ((c - 1) * days + d) + leadTime + 1" by linarith
  from assms(3) have b: "(0::real) < of_int days" by simp
  show ?thesis
    unfolding enqueuedOrder_def orderArrival_def Let_def realMod_def js_rem_floor[OF a b]
    by (rule refl)
qed

lemma schedule_member:
  "(c, d) \<in> set (schedule cycles days) \<longleftrightarrow> 1 \<le> c \<and> c \<le> cycles \<and> 1 \<le> d \<and> d \<le> days"
  by (auto simp: schedule_def image_iff)

lemma inventory_loop_table:
  assumes "forEachM (inventoryDay days invLimit demandRows leadTimeRows demandNums leadTimeNums)
             ds s = Inr u"
  shows "length (table u) = length (table s) + length ds \<and>
         take (length (table s)) (table u) = table s \<and>
         (\<forall>j < length ds. (cycle (table u ! (length (table s) + j)),
                            day (table u ! (length (table s) + j))) = ds ! j)"
proof -
  let ?L = "length (table s)"
  let ?I = "\<lambda>n (t::InventoryState). length (table t) = ?L + n \<and> take ?L (table t) = table s \<and>
              (\<forall>j < n. (cycle (table t ! (?L + j)), day (table t ! (?L + j))) = ds ! j)"
  have "?I (length ds) u"
  proof (rule forEachM_invariant[OF assms, where I = ?I])
    show "?I 0 s" by simp
  next
    fix n t t'
    assume n: "n < length ds" and inv: "?I n t"
      and step: "inventoryDay days invLimit demandRows leadTimeRows demandNums leadTimeNums
                   (ds ! n) t = Inr t'"
    obtain c d where cd: "ds ! n = (c, d)" by (cases "ds ! n")
    from inventoryDay_review[OF step[unfolded cd]]
    obtain row where t': "table t' = table t @ [row]" and rc: "cycle row = c" "day row = d"
      by blast
    from inv have len: "length (table t) = ?L + n" and tk: "take ?L (table t) = table s"
      and old: "\<forall>j < n. (cycle (table t ! (?L + j)), day (table t ! (?L + j))) = ds ! j"
      by simp_all
    have "(cycle (table t' ! (?L + j)), day (table t' ! (?L + j))) = ds ! j" if "j < Suc n" for j
    proof (cases "j = n")
      case True
      with len t' rc cd show ?thesis by (simp add: nth_append)
    next
      case False
      with that have "j < n" by simp
      with old len t' show ?thesis by (simp add: nth_append)
    qed
    with len tk t' show "?I (Suc n) t'" by simp
  qed
  then show ?thesis by simp
qed

lemma inventoryDay_reviewed:
  assumes step: "inventoryDay days invLimit demandRows leadTimeRows demandNums leadTimeNums
                   (c, d) st = Inr st'"
    and "1 \<le> c" and "1 \<le> d" and "1 \<le> days"
    and lt: "\<forall>v \<in> set (map val leadTimeRows). 0 \<le> v"
  shows "\<exists>row. table st' = table st @ [row] \<and> cycle row = c \<and> day row = d \<and>
           reviewedDay days invLimit leadTimeRows leadTimeNums st st' row"
proof -
  from inventoryDay_review[OF step] obtain row where
    t: "table st' = table st @ [row]" and c: "cycle row = c" and d: "day row = d"
    and q: "orderQuantity row =
             (if d = days then Some (of_int invLimit - endingInventory row + shortage row)
              else None)"
    and p: "if d = days \<and> 0 < of_int invLimit - endingInventory row + shortage row \<and>
               leadTimeIndex st < length leadTimeNums
            then \<exists>leadTime.
                   mapRandomToValue (leadTimeNums ! leadTimeIndex st) leadTimeRows 10 =
                     Some leadTime \<and>
                   randLeadTime row = Some (leadTimeNums ! leadTimeIndex st) \<and>
                   pendingOrders st' = stillPending c d st @
                     [enqueuedOrder days c d
                        (of_int invLimit - endingInventory row + shortage row) leadTime]
            else randLeadTime row = None \<and> pendingOrders st' = stillPending c d st"
    by blast
  have "reviewedDay days invLimit leadTimeRows leadTimeNums st st' row"
  proof (cases "d = days \<and> 0 < of_int invLimit - endingInventory row + shortage row \<and>
               leadTimeIndex st < length leadTimeNums")
    case True
    with p obtain leadTime where
      m: "mapRandomToValue (leadTimeNums ! leadTimeIndex st) leadTimeRows 10 = Some leadTime"
      and r: "randLeadTime row = Some (leadTimeNums ! leadTimeIndex st)"
      and po: "pendingOrders st' = stillPending c d st @
                     [enqueuedOrder days c d
                        (of_int invLimit - endingInventory row + shortage row) leadTime]"
      by auto
    from mapRandomToValue_val[OF m] lt have "0 \<le> leadTime" by blast
    from enqueuedOrder_spec[OF assms(2,3,4) this] po
    have "pendingOrders st' = stillPending c d st @
                     [orderArrival days c d
                        (of_int invLimit - endingInventory row + shortage row) leadTime]"
      by simp
    with True m r q show ?thesis
      unfolding reviewedDay_def Let_def c d by auto
  next
    case False
    with p q show ?thesis
      unfolding reviewedDay_def Let_def c d by auto
  qed
  with t c d show ?thesis by blast
qed

text \<open>
  Claim C5, as amended. In every inventory run whose lead-time distribution has no
  negative value, the ledger has one row per day of the schedule, in its order, so every
  cycle has a row for its last day; the row of day \<open>n\<close> is the one the loop body appends
  to the state after the first \<open>n\<close> days, and on that day a review occurs exactly when
  it is the last day of its cycle, with order quantity
  \<open>Q = inventoryLimit - endingInventory + accumulatedShortage\<close>. Whenever \<open>Q > 0\<close> and a
  lead-time digit is available, the digit is consumed and the pending orders gain one
  order, arriving on the absolute day \<open>currentAbsoluteDay + leadTime + 1\<close>, in the cycle
  \<open>ceil (absDay / daysPerCycle)\<close> on the day \<open>absDay mod daysPerCycle\<close>, with 0 read as
  \<open>daysPerCycle\<close>; otherwise no order is enqueued.
\<close>

theorem inventory_review:
  assumes run: "InventoryPage_runSimulation numCycles daysPerCycle initialInventory
       inventoryLimit initialOrderQuantity initialOrderLeadTime demandDist leadTimeDist
       demandNums leadTimeNums = Inr tbl"
    and nonneg: "\<forall>row \<in> set leadTimeDist. 0 \<le> val row"
  shows "\<exists>demandRows leadTimeRows.
           buildCumulative demandDist 100 = Inr demandRows \<and>
           buildCumulative leadTimeDist 10 = Inr leadTimeRows \<and>
           length tbl = nat (\<lfloor>numCycles\<rfloor> * \<lfloor>daysPerCycle\<rfloor>) \<and>
           (\<forall>c. 1 \<le> c \<and> c \<le> \<lfloor>numCycles\<rfloor> \<longrightarrow>
                (\<exists>n < length tbl. cycle (tbl ! n) = c \<and> day (tbl ! n) = \<lfloor>daysPerCycle\<rfloor>)) \<and>
           (\<forall>n < length tbl.
              (cycle (tbl ! n), day (tbl ! n)) = schedule \<lfloor>numCycles\<rfloor> \<lfloor>daysPerCycle\<rfloor> ! n \<and>
              (\<exists>st st'.
                 stateAfterDays n numCycles daysPerCycle initialInventory inventoryLimit
                   initialOrderQuantity initialOrderLeadTime demandRows leadTimeRows
                   demandNums leadTimeNums = Inr st \<and>
                 stateAfterDays (Suc n) numCycles daysPerCycle initialInventory inventoryLimit
                   initialOrderQuantity initialOrderLeadTime demandRows leadTimeRows
                   demandNums leadTimeNums = Inr st' \<and>
                 table st' = take (Suc n) tbl \<and>
                 reviewedDay \<lfloor>daysPerCycle\<rfloor> \<lfloor>inventoryLimit\<rfloor> leadTimeRows leadTimeNums
                   st st' (tbl ! n)))"
proof -
  let ?sched = "schedule \<lfloor>numCycles\<rfloor> \<lfloor>daysPerCycle\<rfloor>"
  let ?s0 = "\<lparr>table = [], inventory = of_int \<lfloor>initialInventory\<rfloor>,
         pendingOrders = initialPendingOrders \<lfloor>initialOrderQuantity\<rfloor> \<lfloor>initialOrderLeadTime\<rfloor>,
         demandIndex = 0, leadTimeIndex = 0\<rparr>"
  from run obtain demandRows leadTimeRows stF where
    D: "buildCumulative demandDist 100 = Inr demandRows"
    and L: "buildCumulative leadTimeDist 10 = Inr leadTimeRows"
    and c1: "1 \<le> \<lfloor>numCycles\<rfloor>" and d1: "1 \<le> \<lfloor>daysPerCycle\<rfloor>"
    and loop: "forEachM (inventoryDay \<lfloor>daysPerCycle\<rfloor> \<lfloor>inventoryLimit\<rfloor> demandRows leadTimeRows
                 demandNums leadTimeNums) ?sched ?s0 = Inr stF"
    and tbl: "tbl = table stF"
    by (rule run_Inr_form)
  let ?body = "inventoryDay \<lfloor>daysPerCycle\<rfloor> \<lfloor>inventoryLimit\<rfloor> demandRows leadTimeRows
                 demandNums leadTimeNums"
  from buildCumulative_vals[OF L] nonneg
  have lt: "\<forall>v \<in> set (map val leadTimeRows). 0 \<le> v" by simp
  from inventory_loop_table[OF loop]
  have len: "length tbl = length ?sched"
    and coords: "\<forall>j < length ?sched. (cycle (tbl ! j), day (tbl ! j)) = ?sched ! j"
    unfolding tbl by simp_all
  have len': "length tbl = nat (\<lfloor>numCycles\<rfloor> * \<lfloor>daysPerCycle\<rfloor>)"
    using len c1 d1 by (simp add: schedule_length nat_mult_distrib)
  have last_days: "\<exists>n < length tbl. cycle (tbl ! n) = c \<and> day (tbl ! n) = \<lfloor>daysPerCycle\<rfloor>"
    if "1 \<le> c \<and> c \<le> \<lfloor>numCycles\<rfloor>" for c
  proof -
    from that d1 have "(c, \<lfloor>daysPerCycle\<rfloor>) \<in> set ?sched" by (simp add: schedule_member)
    then obtain n where n: "n < length ?sched" and "?sched ! n = (c, \<lfloor>daysPerCycle\<rfloor>)"
      by (auto simp: in_set_conv_nth)
    with coords have "cycle (tbl ! n) = c \<and> day (tbl ! n) = \<lfloor>daysPerCycle\<rfloor>" by auto
    with n len show ?thesis by auto
  qed
  have each: "(cycle (tbl ! n), day (tbl ! n)) = ?sched ! n \<and>
      (\<exists>st st'.
         stateAfterDays n numCycles daysPerCycle initialInventory inventoryLimit
           initialOrderQuantity initialOrderLeadTime demandRows leadTimeRows
           demandNums leadTimeNums = Inr st \<and>
         stateAfterDays (Suc n) numCycles daysPerCycle initialInventory inventoryLimit
           initialOrderQuantity initialOrderLeadTime demandRows leadTimeRows
           demandNums leadTimeNums = Inr st' \<and>
         table st' = take (Suc n) tbl \<and>
         reviewedDay \<lfloor>daysPerCycle\<rfloor> \<lfloor>inventoryLimit\<rfloor> leadTimeRows leadTimeNums
           st st' (tbl ! n))"
    if n: "n < length tbl" for n
  proof -
    from n len have n': "n < length ?sched" by simp
    from forEachM_split[OF loop n'] obtain st st' where
      pre: "forEachM ?body (take n ?sched) ?s0 = Inr st"
      and step: "?body (?sched ! n) st = Inr st'"
      and pre': "forEachM ?body (take (Suc n) ?sched) ?s0 = Inr st'"
      and post: "forEachM ?body (drop (Suc n) ?sched) st' = Inr stF"
      by blast
    obtain c d where cd: "?sched ! n = (c, d)" by (cases "?sched ! n")
    from n' cd have "(c, d) \<in> set ?sched" by (metis nth_mem)
    then have cpos: "1 \<le> c" and dpos: "1 \<le> d" by (simp_all add: schedule_member)
    from inventoryDay_reviewed[OF step[unfolded cd] cpos dpos d1 lt]
    obtain row where t': "table st' = table st @ [row]"
      and rd: "reviewedDay \<lfloor>daysPerCycle\<rfloor> \<lfloor>inventoryLimit\<rfloor> leadTimeRows leadTimeNums
                 st st' row"
      by blast
    from inventory_loop_table[OF pre] n' have ls: "length (table st) = n" by simp
    with t' have ls': "length (table st') = Suc n" and rown: "table st' ! n = row"
      by (simp_all add: nth_append)
    from inventory_loop_table[OF post] have "take (length (table st')) (table stF) = table st'"
      by simp
    then have tk: "table st' = take (Suc n) tbl" unfolding tbl ls' by simp
    then have "tbl ! n = row" using rown by (metis lessI nth_take)
    with rd have rd': "reviewedDay \<lfloor>daysPerCycle\<rfloor> \<lfloor>inventoryLimit\<rfloor> leadTimeRows leadTimeNums
                 st st' (tbl ! n)"
      by simp
    from coords n' have "(cycle (tbl ! n), day (tbl ! n)) = ?sched ! n" by simp
    with pre pre' tk rd' show ?thesis unfolding stateAfterDays_def by blast
  qed
  from D L len' last_days each show ?thesis by blast
qed

text \<open>
  Claim C5 on the run of two cycles of two days above, at its second day, the last day
  of cycle 1: the review orders \<open>Q = 11 - 3 + 0 = 8\<close> with lead time 1, to arrive on
  absolute day 4, which is day 2 of cycle 2.
\<close>

lemma example_tables:
  "buildCumulative [\<lparr>val = 2, probability = 1 / 2\<rparr>, \<lparr>val = 4, probability = 1 / 2\<rparr>] 100 =
     Inr [\<lparr>val = 2, probability = 1 / 2, cumulative = 1 / 2, rangeStart = 1, rangeEnd = 50\<rparr>,
          \<lparr>val = 4, probability = 1 / 2, cumulative = 1, rangeStart = 51, rangeEnd = 100\<rparr>]"
  "buildCumulative [\<lparr>val = 1, probability = 1\<rparr>] 10 =
     Inr [\<lparr>val = 1, probability = 1, cumulative = 1, rangeStart = 1, rangeEnd = 10\<rparr>]"
  by (simp_all add: buildCumulative_def tolerance_def js_round_def Let_def)

lemma example_state_1:
  "stateAfterDays 1 2 2 3 11 8 1
     [\<lparr>val = 2, probability = 1 / 2, cumulative = 1 / 2, rangeStart = 1, rangeEnd = 50\<rparr>,
      \<lparr>val = 4, probability = 1 / 2, cumulative = 1, rangeStart = 51, rangeEnd = 100\<rparr>]
     [\<lparr>val = 1, probability = 1, cumulative = 1, rangeStart = 1, rangeEnd = 10\<rparr>]
     [60, 60, 10, 10] [5] =
   Inr \<lparr>table = [\<lparr>cycle = 1, day = 1, beginningInventory = 3, randDemand = 60, demand = 4,
                 endingInventory = 0, shortage = 1, orderQuantity = None,
                 randLeadTime = None, daysUntilArrival = Some 0\<rparr>],
        inventory = 0,
        pendingOrders = [\<lparr>quantity = 8, arrivalCycle = 1, arrivalDay = 2\<rparr>],
        demandIndex = 1, leadTimeIndex = 0\<rparr>"
  by (simp add: stateAfterDays_def schedule_def initialPendingOrders_def inventoryDay_def
      receivedStock_def stillPending_def arrivesToday_def nextArrivalDisplay_def
      carriedShortage_def dayDemand_def settleBacklog_def satisfyDemand_def reviewOrder_def
      inventoryRow_def js_index_def mapDigit_def mapRandomToValue_def inRange_def
      js_rem_def js_trunc_def Let_def upto_rec1)

theorem inventory_review_witness:
  "InventoryPage_runSimulation 2 2 3 11 8 1
       [\<lparr>val = 2, probability = 1 / 2\<rparr>, \<lparr>val = 4, probability = 1 / 2\<rparr>]
       [\<lparr>val = 1, probability = 1\<rparr>] [60, 60, 10, 10] [5] =
     Inr [\<lparr>cycle = 1, day = 1, beginningInventory = 3, randDemand = 60, demand = 4,
            endingInventory = 0, shortage = 1, orderQuantity = None, randLeadTime = None,
            daysUntilArrival = Some 0\<rparr>,
          \<lparr>cycle = 1, day = 2, beginningInventory = 8, randDemand = 60, demand = 4,
            endingInventory = 3, shortage = 0, orderQuantity = Some 8, randLeadTime = Some 5,
            daysUntilArrival = Some 1\<rparr>,
          \<lparr>cycle = 2, day = 1, beginningInventory = 3, randDemand = 10, demand = 2,
            endingInventory = 1, shortage = 0, orderQuantity = None, randLeadTime = None,
            daysUntilArrival = Some 0\<rparr>,
          \<lparr>cycle = 2, day = 2, beginningInventory = 9, randDemand = 10, demand = 2,
            endingInventory = 7, shortage = 0, orderQuantity = Some 4, randLeadTime = None,
            daysUntilArrival = None\<rparr>] \<and>
   list_all (\<lambda>row. 0 \<le> val row) [\<lparr>val = 1, probability = 1\<rparr>] \<and>
   (\<exists>st'. stateAfterDays 2 2 2 3 11 8 1
       [\<lparr>val = 2, probability = 1 / 2, cumulative = 1 / 2, rangeStart = 1, rangeEnd = 50\<rparr>,
        \<lparr>val = 4, probability = 1 / 2, cumulative = 1, rangeStart = 51, rangeEnd = 100\<rparr>]
       [\<lparr>val = 1, probability = 1, cumulative = 1, rangeStart = 1, rangeEnd = 10\<rparr>]
       [60, 60, 10, 10] [5] = Inr st' \<and>
      length (table st') = 2 \<and>
      cycle (table st' ! 1) = 1 \<and> day (table st' ! 1) = 2 \<and>
      orderQuantity (table st' ! 1) = Some (11 - 3 + 0) \<and>
      randLeadTime (table st' ! 1) = Some 5 \<and>
      pendingOrders st' = [orderArrival 2 1 2 8 1]) \<and>
   orderArrival 2 1 2 8 1 = \<lparr>quantity = 8, arrivalCycle = 2, arrivalDay = 2\<rparr>"
proof -
  let ?tbl = "[\<lparr>cycle = 1, day = 1, beginningInventory = 3, randDemand = 60, demand = 4,
            endingInventory = 0, shortage = 1, orderQuantity = None, randLeadTime = None,
            daysUntilArrival = Some 0\<rparr>,
          \<lparr>cycle = 1, day = 2, beginningInventory = 8, randDemand = 60, demand = 4,
            endingInventory = 3, shortage = 0, orderQuantity = Some 8, randLeadTime = Some 5,
            daysUntilArrival = Some 1\<rparr>,
          \<lparr>cycle = 2, day = 1, beginningInventory = 3, randDemand = 10, demand = 2,
            endingInventory = 1, shortage = 0, orderQuantity = None, randLeadTime = None,
            daysUntilArrival = Some 0\<rparr>,
          \<lparr>cycle = 2, day = 2, beginningInventory = 9, randDemand = 10, demand = 2,
            endingInventory = 7, shortage = 0, orderQuantity = Some 4, randLeadTime = None,
            daysUntilArrival = None\<rparr>]"
  let ?leadRows = "[\<lparr>val = 1, probability = 1, cumulative = 1, rangeStart = 1, rangeEnd = 10\<rparr>]"
  have nonneg: "\<forall>row \<in> set [\<lparr>val = 1, probability = 1\<rparr>]. 0 \<le> val row" by simp
  have arr: "orderArrival 2 1 2 8 1 = \<lparr>quantity = 8, arrivalCycle = 2, arrivalDay = 2\<rparr>"
    by (simp add: orderArrival_def realMod_def Let_def)
  have m: "mapRandomToValue 5 ?leadRows 10 = Some 1"
    by (simp add: mapRandomToValue_def inRange_def)
  from inventory_review [OF inventory_run_value nonneg]
  obtain demandRows leadTimeRows where
    D: "buildCumulative
          [\<lparr>val = 2, probability = 1 / 2\<rparr>, \<lparr>val = 4, probability = 1 / 2\<rparr>] 100 =
        Inr demandRows"
    and L: "buildCumulative [\<lparr>val = 1, probability = 1\<rparr>] 10 = Inr leadTimeRows"
    and each: "\<forall>n < length ?tbl.
        (cycle (?tbl ! n), day (?tbl ! n)) = schedule \<lfloor>2::real\<rfloor> \<lfloor>2::real\<rfloor> ! n \<and>
        (\<exists>st st'.
           stateAfterDays n 2 2 3 11 8 1 demandRows leadTimeRows [60, 60, 10, 10] [5] = Inr st \<and>
           stateAfterDays (Suc n) 2 2 3 11 8 1 demandRows leadTimeRows [60, 60, 10, 10] [5] =
             Inr st' \<and>
           table st' = take (Suc n) ?tbl \<and>
           reviewedDay \<lfloor>2::real\<rfloor> \<lfloor>11::real\<rfloor> leadTimeRows [5] st st' (?tbl ! n))"
    by blast
  from D L example_tables have rows:
    "demandRows =
       [\<lparr>val = 2, probability = 1 / 2, cumulative = 1 / 2, rangeStart = 1, rangeEnd = 50\<rparr>,
        \<lparr>val = 4, probability = 1 / 2, cumulative = 1, rangeStart = 51, rangeEnd = 100\<rparr>]"
    "leadTimeRows = ?leadRows"
    by simp_all
  from each [THEN spec, of 1] obtain st st' where
    s: "stateAfterDays 1 2 2 3 11 8 1 demandRows leadTimeRows [60, 60, 10, 10] [5] = Inr st"
    and s': "stateAfterDays (Suc 1) 2 2 3 11 8 1 demandRows leadTimeRows [60, 60, 10, 10] [5] =
               Inr st'"
    and t: "table st' = take (Suc 1) ?tbl"
    and r: "reviewedDay \<lfloor>2::real\<rfloor> \<lfloor>11::real\<rfloor> leadTimeRows [5] st st' (?tbl ! 1)"
    by auto
  from s example_state_1 have st: "st = \<lparr>table = [\<lparr>cycle = 1, day = 1, beginningInventory = 3, randDemand = 60, demand = 4,
                 endingInventory = 0, shortage = 1, orderQuantity = None,
                 randLeadTime = None, daysUntilArrival = Some 0\<rparr>],
        inventory = 0,
        pendingOrders = [\<lparr>quantity = 8, arrivalCycle = 1, arrivalDay = 2\<rparr>],
        demandIndex = 1, leadTimeIndex = 0\<rparr>"
    unfolding rows by simp
  from r m have po: "pendingOrders st' = [orderArrival 2 1 2 8 1]"
    unfolding reviewedDay_def rows st
    by (simp add: Let_def stillPending_def arrivesToday_def)
  from s' have s2: "stateAfterDays 2 2 2 3 11 8 1 demandRows leadTimeRows [60, 60, 10, 10] [5] =
               Inr st'"
    by (simp add: numeral_2_eq_2)
  from t have tt: "length (table st') = 2" "cycle (table st' ! 1) = 1" "day (table st' ! 1) = 2"
     "orderQuantity (table st' ! 1) = Some (11 - 3 + 0)" "randLeadTime (table st' ! 1) = Some 5"
    by simp_all
  from s2 po tt have "\<exists>st'. stateAfterDays 2 2 2 3 11 8 1 demandRows ?leadRows
       [60, 60, 10, 10] [5] = Inr st' \<and>
      length (table st') = 2 \<and>
      cycle (table st' ! 1) = 1 \<and> day (table st' ! 1) = 2 \<and>
      orderQuantity (table st' ! 1) = Some (11 - 3 + 0) \<and>
      randLeadTime (table st' ! 1) = Some 5 \<and>
      pendingOrders st' = [orderArrival 2 1 2 8 1]"
    unfolding rows by blast
  with inventory_run_value arr show ?thesis unfolding rows by simp
qed

text \<open>
  Claim C5 as stated fails for a negative lead time. A run of one cycle of two days with
  demand 2 every day and a lead-time table whose only value is \<open>-4\<close>: on day 2 the review
  orders \<open>Q = 11 - 0 + 1 = 12\<close>, the absolute arrival day is \<open>2 + (-4) + 1 = -1\<close>, and
  the program enqueues the order for day \<open>-1 % 2 = -1\<close> of cycle 0, whereas
  \<open>-1 mod 2 = 1\<close>: the day is not reviewed as the specification says.
\<close>

theorem inventory_review_counterexample:
  "InventoryPage_runSimulation 1 2 3 11 0 0
       [\<lparr>val = 2, probability = 1\<rparr>] [\<lparr>val = - 4, probability = 1\<rparr>] [50, 50] [5] =
     Inr [\<lparr>cycle = 1, day = 1, beginningInventory = 3, randDemand = 50, demand = 2,
            endingInventory = 1, shortage = 0, orderQuantity = None, randLeadTime = None,
            daysUntilArrival = None\<rparr>,
          \<lparr>cycle = 1, day = 2, beginningInventory = 1, randDemand = 50, demand = 2,
            endingInventory = 0, shortage = 1, orderQuantity = Some 12,
            randLeadTime = Some 5, daysUntilArrival = Some (- 4)\<rparr>] \<and>
   buildCumulative [\<lparr>val = - 4, probability = 1\<rparr>] 10 =
     Inr [\<lparr>val = - 4, probability = 1, cumulative = 1, rangeStart = 1, rangeEnd = 10\<rparr>] \<and>
   mapRandomToValue 5
     [\<lparr>val = - 4, probability = 1, cumulative = 1, rangeStart = 1, rangeEnd = 10\<rparr>] 10 =
     Some (- 4) \<and>
   stateAfterDays 2 1 2 3 11 0 0
       [\<lparr>val = 2, probability = 1, cumulative = 1, rangeStart = 1, rangeEnd = 100\<rparr>]
       [\<lparr>val = - 4, probability = 1, cumulative = 1, rangeStart = 1, rangeEnd = 10\<rparr>]
       [50, 50] [5] =
     Inr \<lparr>table =
            [\<lparr>cycle = 1, day = 1, beginningInventory = 3, randDemand = 50, demand = 2,
               endingInventory = 1, shortage = 0, orderQuantity = None, randLeadTime = None,
               daysUntilArrival = None\<rparr>,
             \<lparr>cycle = 1, day = 2, beginningInventory = 1, randDemand = 50, demand = 2,
               endingInventory = 0, shortage = 1, orderQuantity = Some 12,
               randLeadTime = Some 5, daysUntilArrival = Some (- 4)\<rparr>],
          inventory = 0,
          pendingOrders = [\<lparr>quantity = 12, arrivalCycle = 0, arrivalDay = - 1\<rparr>],
          demandIndex = 2, leadTimeIndex = 1\<rparr> \<and>
   orderArrival 2 1 2 12 (- 4) = \<lparr>quantity = 12, arrivalCycle = 0, arrivalDay = 1\<rparr> \<and>
   stateAfterDays 1 1 2 3 11 0 0
       [\<lparr>val = 2, probability = 1, cumulative = 1, rangeStart = 1, rangeEnd = 100\<rparr>]
       [\<lparr>val = - 4, probability = 1, cumulative = 1, rangeStart = 1, rangeEnd = 10\<rparr>]
       [50, 50] [5] =
     Inr \<lparr>table =
            [\<lparr>cycle = 1, day = 1, beginningInventory = 3, randDemand = 50, demand = 2,
               endingInventory = 1, shortage = 0, orderQuantity = None, randLeadTime = None,
               daysUntilArrival = None\<rparr>],
          inventory = 1, pendingOrders = [], demandIndex = 1, leadTimeIndex = 0\<rparr> \<and>
   \<not> reviewedDay 2 11
       [\<lparr>val = - 4, probability = 1, cumulative = 1, rangeStart = 1, rangeEnd = 10\<rparr>] [5]
       \<lparr>table =
            [\<lparr>cycle = 1, day = 1, beginningInventory = 3, randDemand = 50, demand = 2,
               endingInventory = 1, shortage = 0, orderQuantity = None, randLeadTime = None,
               daysUntilArrival = None\<rparr>],
          inventory = 1, pendingOrders = [], demandIndex = 1, leadTimeIndex = 0\<rparr>
       \<lparr>table =
            [\<lparr>cycle = 1, day = 1, beginningInventory = 3, randDemand = 50, demand = 2,
               endingInventory = 1, shortage = 0, orderQuantity = None, randLeadTime = None,
               daysUntilArrival = None\<rparr>,
             \<lparr>cycle = 1, day = 2, beginningInventory = 1, randDemand = 50, demand = 2,
               endingInventory = 0, shortage = 1, orderQuantity = Some 12,
               randLeadTime = Some 5, daysUntilArrival = Some (- 4)\<rparr>],
          inventory = 0,
          pendingOrders = [\<lparr>quantity = 12, arrivalCycle = 0, arrivalDay = - 1\<rparr>],
          demandIndex = 2, leadTimeIndex = 1\<rparr>
       \<lparr>cycle = 1, day = 2, beginningInventory = 1, randDemand = 50, demand = 2,
         endingInventory = 0, shortage = 1, orderQuantity = Some 12,
         randLeadTime = Some 5, daysUntilArrival = Some (- 4)\<rparr>"
proof -
  have c: "\<lceil>- (1 / 2 :: real)\<rceil> = 0" "\<lfloor>- (1 / 2 :: real)\<rfloor> = - 1"
    by (simp_all add: ceiling_eq_iff floor_eq_iff)
  show ?thesis
  by (simp add: c InventoryPage_runSimulation_def reorderPoint_def buildCumulative_def
      tolerance_def js_round_def schedule_def initialPendingOrders_def inventoryDay_def
      receivedStock_def stillPending_def arrivesToday_def nextArrivalDisplay_def
      carriedShortage_def dayDemand_def settleBacklog_def satisfyDemand_def reviewOrder_def
      inventoryRow_def js_index_def mapDigit_def mapRandomToValue_def inRange_def
      js_rem_def js_trunc_def Let_def upto_rec1 stateAfterDays_def enqueuedOrder_def
      orderArrival_def realMod_def reviewedDay_def)
qed

text \<open>
  Claim C10, as amended. When no value of the demand distribution is negative, every row
  of the ledger of a run has ending inventory 0 or shortage 0: a positive shortage
  implies that the ending inventory is 0.
\<close>

theorem inventory_stock_or_backlog:
  assumes "InventoryPage_runSimulation numCycles daysPerCycle initialInventory inventoryLimit
       initialOrderQuantity initialOrderLeadTime demandDist leadTimeDist demandNums leadTimeNums
       = Inr tbl"
    and "\<forall>row \<in> set demandDist. 0 \<le> val row"
  shows "\<forall>row \<in> set tbl.
           (endingInventory row = 0 \<or> shortage row = 0) \<and>
           (0 < shortage row \<longrightarrow> endingInventory row = 0)"
proof -
  from assms(1) obtain demandRows leadTimeRows st where
    dr: "buildCumulative demandDist 100 = Inr demandRows"
    and i0: "0 \<le> \<lfloor>initialInventory\<rfloor>"
    and loop: "forEachM (inventoryDay \<lfloor>daysPerCycle\<rfloor> \<lfloor>inventoryLimit\<rfloor> demandRows leadTimeRows
                 demandNums leadTimeNums)
       (schedule \<lfloor>numCycles\<rfloor> \<lfloor>daysPerCycle\<rfloor>)
       \<lparr>table = [], inventory = of_int \<lfloor>initialInventory\<rfloor>,
         pendingOrders = initialPendingOrders \<lfloor>initialOrderQuantity\<rfloor> \<lfloor>initialOrderLeadTime\<rfloor>,
         demandIndex = 0, leadTimeIndex = 0\<rparr> = Inr st"
    and tbl: "tbl = table st"
    by (rule run_Inr_form)
  from buildCumulative_vals[OF dr] assms(2)
  have dem: "\<forall>v \<in> set (map val demandRows). 0 \<le> v" by simp
  have "dayInvariant \<lparr>table = [], inventory = of_int \<lfloor>initialInventory\<rfloor>,
         pendingOrders = initialPendingOrders \<lfloor>initialOrderQuantity\<rfloor> \<lfloor>initialOrderLeadTime\<rfloor>,
         demandIndex = 0, leadTimeIndex = 0\<rparr>"
    using i0 by (simp add: dayInvariant_def initialPendingOrders_def)
  from inventory_loop_invariant[OF loop this dem] show ?thesis
    unfolding dayInvariant_def tbl by auto
qed

text \<open>
  Claim C10 as stated fails when a demand value is negative: with the demand values 3 and
  -2, the first day leaves a shortage of 3 and no stock, and the second day's demand of -2
  leaves 2 units in stock while the shortage of 3 stands.
\<close>

theorem inventory_stock_or_backlog_counterexample:
  "InventoryPage_runSimulation 1 2 0 11 0 0
       [\<lparr>val = 3, probability = 1 / 2\<rparr>, \<lparr>val = - 2, probability = 1 / 2\<rparr>]
       [\<lparr>val = 1, probability = 1\<rparr>] [10, 90] [] =
     Inr [\<lparr>cycle = 1, day = 1, beginningInventory = 0, randDemand = 10, demand = 3,
            endingInventory = 0, shortage = 3, orderQuantity = None, randLeadTime = None,
            daysUntilArrival = None\<rparr>,
          \<lparr>cycle = 1, day = 2, beginningInventory = 0, randDemand = 90, demand = - 2,
            endingInventory = 2, shortage = 3, orderQuantity = Some 12, randLeadTime = None,
            daysUntilArrival = None\<rparr>]"
  by (simp add: InventoryPage_runSimulation_def reorderPoint_def buildCumulative_def
      tolerance_def js_round_def schedule_def initialPendingOrders_def inventoryDay_def
      receivedStock_def stillPending_def arrivesToday_def nextArrivalDisplay_def
      carriedShortage_def dayDemand_def settleBacklog_def satisfyDemand_def reviewOrder_def
      inventoryRow_def js_index_def mapDigit_def mapRandomToValue_def inRange_def
      js_rem_def js_trunc_def Let_def upto_rec1)

text \<open>The theorem at a run of two cycles of two days.\<close>

theorem inventory_stock_or_backlog_witness:
  "list_all (\<lambda>row. 0 \<le> val row)
     [\<lparr>val = 2, probability = 1 / 2\<rparr>, \<lparr>val = 4, probability = 1 / 2\<rparr>] \<and>
   (\<exists>tbl. InventoryPage_runSimulation 2 2 3 11 8 1
       [\<lparr>val = 2, probability = 1 / 2\<rparr>, \<lparr>val = 4, probability = 1 / 2\<rparr>]
       [\<lparr>val = 1, probability = 1\<rparr>] [60, 60, 10, 10] [5] = Inr tbl \<and>
     length tbl = 4 \<and> shortage (tbl ! 0) = 1 \<and> endingInventory (tbl ! 0) = 0 \<and>
     list_all (\<lambda>row. endingInventory row = 0 \<or> shortage row = 0) tbl)"
proof -
  have v: "\<forall>row \<in> set [\<lparr>val = 2, probability = 1 / 2\<rparr>, \<lparr>val = 4, probability = 1 / 2\<rparr>].
      0 \<le> val row"
    by simp
  from inventory_stock_or_backlog [OF inventory_run_value v]
  have "list_all (\<lambda>row. endingInventory row = 0 \<or> shortage row = 0)
     [\<lparr>cycle = 1, day = 1, beginningInventory = 3, randDemand = 60, demand = 4,
            endingInventory = 0, shortage = 1, orderQuantity = None, randLeadTime = None,
            daysUntilArrival = Some 0\<rparr>,
          \<lparr>cycle = 1, day = 2, beginningInventory = 8, randDemand = 60, demand = 4,
            endingInventory = 3, shortage = 0, orderQuantity = Some 8, randLeadTime = Some 5,
            daysUntilArrival = Some 1\<rparr>,
          \<lparr>cycle = 2, day = 1, beginningInventory = 3, randDemand = 10, demand = 2,
            endingInventory = 1, shortage = 0, orderQuantity = None, randLeadTime = None,
            daysUntilArrival = Some 0\<rparr>,
          \<lparr>cycle = 2, day = 2, beginningInventory = 9, randDemand = 10, demand = 2,
            endingInventory = 7, shortage = 0, orderQuantity = Some 4, randLeadTime = None,
            daysUntilArrival = None\<rparr>]"
    unfolding list_all_iff by blast
  then show ?thesis unfolding inventory_run_value by simp
qed

text \<open>
  Claim C8. A demand stream shorter than \<open>cycles * daysPerCycle\<close> fails the run at the
  check that precedes the loop, so no row is produced: with valid parameters the run is
  the error \<open>NotEnoughDemandDigits\<close>. The lead-time stream is never checked for length:
  with enough demand digits the run returns all \<open>cycles * daysPerCycle\<close> rows however
  short the lead-time stream is, and a review that finds the stream exhausted returns
  without an error, with no lead-time digit and the pending orders unchanged.
\<close>

theorem inventory_digit_exhaustion:
  assumes "validInventoryInputs numCycles daysPerCycle initialInventory inventoryLimit
             initialOrderQuantity initialOrderLeadTime demandDist leadTimeDist"
    and "\<forall>x \<in> set demandNums. integerDigit 100 x"
    and "\<forall>x \<in> set leadTimeNums. integerDigit 10 x"
  shows "(int (length demandNums) < \<lfloor>numCycles\<rfloor> * \<lfloor>daysPerCycle\<rfloor> \<longrightarrow>
            InventoryPage_runSimulation numCycles daysPerCycle initialInventory
              inventoryLimit initialOrderQuantity initialOrderLeadTime demandDist leadTimeDist
              demandNums leadTimeNums = Inl NotEnoughDemandDigits) \<and>
         (\<lfloor>numCycles\<rfloor> * \<lfloor>daysPerCycle\<rfloor> \<le> int (length demandNums) \<longrightarrow>
            (\<exists>tbl. InventoryPage_runSimulation numCycles daysPerCycle initialInventory
                inventoryLimit initialOrderQuantity initialOrderLeadTime demandDist
                leadTimeDist demandNums leadTimeNums = Inr tbl \<and>
              length tbl = nat (\<lfloor>numCycles\<rfloor> * \<lfloor>daysPerCycle\<rfloor>))) \<and>
         (length leadTimeNums \<le> lt \<longrightarrow>
            (\<exists>rv. reviewOrder days invLimit leadTimeRows leadTimeNums c d endingInv shortageNow
                     daysUntil pending lt = Inr rv \<and>
                   reviewPending rv = pending \<and> reviewRandLeadTime rv = None \<and>
                   reviewLeadTimeIndex rv = lt))"
proof (intro conjI impI)
  assume "int (length demandNums) < \<lfloor>numCycles\<rfloor> * \<lfloor>daysPerCycle\<rfloor>"
  with assms(1) show "InventoryPage_runSimulation numCycles daysPerCycle initialInventory
              inventoryLimit initialOrderQuantity initialOrderLeadTime demandDist leadTimeDist
              demandNums leadTimeNums = Inl NotEnoughDemandDigits"
    unfolding validInventoryInputs_def by (intro inventory_run_short_demand_error) simp_all
next
  assume "\<lfloor>numCycles\<rfloor> * \<lfloor>daysPerCycle\<rfloor> \<le> int (length demandNums)"
  with assms show "\<exists>tbl. InventoryPage_runSimulation numCycles daysPerCycle initialInventory
                inventoryLimit initialOrderQuantity initialOrderLeadTime demandDist
                leadTimeDist demandNums leadTimeNums = Inr tbl \<and>
              length tbl = nat (\<lfloor>numCycles\<rfloor> * \<lfloor>daysPerCycle\<rfloor>)"
    unfolding validInventoryInputs_def by (intro inventory_run_succeeds) simp_all
next
  assume "length leadTimeNums \<le> lt"
  then show "\<exists>rv. reviewOrder days invLimit leadTimeRows leadTimeNums c d endingInv shortageNow
                     daysUntil pending lt = Inr rv \<and>
                   reviewPending rv = pending \<and> reviewRandLeadTime rv = None \<and>
                   reviewLeadTimeIndex rv = lt"
    unfolding reviewOrder_def Let_def by simp
qed

text \<open>
  The theorem at the run of two cycles of two days, whose lead-time stream holds one
  digit: the second review finds it exhausted. With one demand digit fewer the run fails.
\<close>

theorem inventory_digit_exhaustion_witness:
  "validInventoryInputs 2 2 3 11 8 1
     [\<lparr>val = 2, probability = 1 / 2\<rparr>, \<lparr>val = 4, probability = 1 / 2\<rparr>]
     [\<lparr>val = 1, probability = 1\<rparr>] \<and>
   integerDigit 100 60 \<and> integerDigit 100 10 \<and> integerDigit 10 5 \<and>
   InventoryPage_runSimulation 2 2 3 11 8 1
       [\<lparr>val = 2, probability = 1 / 2\<rparr>, \<lparr>val = 4, probability = 1 / 2\<rparr>]
       [\<lparr>val = 1, probability = 1\<rparr>] [60, 60, 10] [5] = Inl NotEnoughDemandDigits \<and>
   (\<exists>tbl. InventoryPage_runSimulation 2 2 3 11 8 1
       [\<lparr>val = 2, probability = 1 / 2\<rparr>, \<lparr>val = 4, probability = 1 / 2\<rparr>]
       [\<lparr>val = 1, probability = 1\<rparr>] [60, 60, 10, 10] [5] = Inr tbl \<and>
     length tbl = 4 \<and> orderQuantity (tbl ! 3) = Some 4 \<and> randLeadTime (tbl ! 3) = None)"
proof -
  have v: "validInventoryInputs 2 2 3 11 8 1
     [\<lparr>val = 2, probability = 1 / 2\<rparr>, \<lparr>val = 4, probability = 1 / 2\<rparr>]
     [\<lparr>val = 1, probability = 1\<rparr>]"
    by (simp add: validInventoryInputs_def validDistribution_def tolerance_def reorderPoint_def)
  have d: "integerDigit 100 60" "integerDigit 100 10" "integerDigit 10 5"
    by (simp_all add: integerDigit_def)
  from d have short: "\<forall>x \<in> set [60, 60, 10::real]. integerDigit 100 x"
    and full: "\<forall>x \<in> set [60, 60, 10, 10::real]. integerDigit 100 x"
    and lead: "\<forall>x \<in> set [5::real]. integerDigit 10 x"
    by simp_all
  from inventory_digit_exhaustion [OF v short lead, THEN conjunct1]
  have a: "InventoryPage_runSimulation 2 2 3 11 8 1
       [\<lparr>val = 2, probability = 1 / 2\<rparr>, \<lparr>val = 4, probability = 1 / 2\<rparr>]
       [\<lparr>val = 1, probability = 1\<rparr>] [60, 60, 10] [5] = Inl NotEnoughDemandDigits"
    by simp
  from inventory_digit_exhaustion [OF v full lead, THEN conjunct2, THEN conjunct1]
  obtain tbl where run: "InventoryPage_runSimulation 2 2 3 11 8 1
       [\<lparr>val = 2, probability = 1 / 2\<rparr>, \<lparr>val = 4, probability = 1 / 2\<rparr>]
       [\<lparr>val = 1, probability = 1\<rparr>] [60, 60, 10, 10] [5] = Inr tbl"
    and len: "length tbl = 4"
    by auto
  from run have "orderQuantity (tbl ! 3) = Some 4" "randLeadTime (tbl ! 3) = None"
    unfolding inventory_run_value by auto
  with v d a run len show ?thesis by blast
qed

text \<open>
  Claim C9 at the initial order of quantity 8 with lead time 0, which the page accepts
  (its field reads "0 means arrives immediately"): no pending order is injected, so the
  8 units never arrive.
\<close>

theorem initial_order_zero_lead_time:
  "initialPendingOrders 8 0 = [] \<and>
   initialPendingOrders 8 2 = [\<lparr>quantity = 8, arrivalCycle = 1, arrivalDay = 3\<rparr>]"
  by (simp add: initialPendingOrders_def)

section \<open>Properties of the statistical tests\<close>

lemma horner5:
  "(((((u1 * q + u2) * q + u3) * q + u4) * q + u5) * q + u6) =
     u1 * q ^ 5 + u2 * q ^ 4 + u3 * q ^ 3 + u4 * q ^ 2 + u5 * q + (u6::real)"
  by (simp add: algebra_simps eval_nat_numeral)

lemma horner4:
  "((((u1 * q + u2) * q + u3) * q + u4) * q + u5) =
     u1 * q ^ 4 + u2 * q ^ 3 + u3 * q ^ 2 + u4 * q + (u5::real)"
  by (simp add: algebra_simps eval_nat_numeral)

lemma central_code:
  "(((((a1 * (q * q) + a2) * (q * q) + a3) * (q * q) + a4) * (q * q) + a5) * (q * q) + a6) * q /
      (((((b1 * (q * q) + b2) * (q * q) + b3) * (q * q) + b4) * (q * q) + b5) * (q * q) + 1) =
   acklamCentral q"
proof -
  define r where "r = q ^ 2"
  have rr: "q * q = r" by (simp add: r_def power2_eq_square)
  have "(((((a1 * r + a2) * r + a3) * r + a4) * r + a5) * r + a6) * q /
      (((((b1 * r + b2) * r + b3) * r + b4) * r + b5) * r + 1) =
      (a1 * r ^ 5 + a2 * r ^ 4 + a3 * r ^ 3 + a4 * r ^ 2 + a5 * r + a6) * q /
      (b1 * r ^ 5 + b2 * r ^ 4 + b3 * r ^ 3 + b4 * r ^ 2 + b5 * r + 1)"
    by (simp only: horner5)
  also have "\<dots> = q * (a1 * r ^ 5 + a2 * r ^ 4 + a3 * r ^ 3 + a4 * r ^ 2 + a5 * r + a6) /
      (b1 * r ^ 5 + b2 * r ^ 4 + b3 * r ^ 3 + b4 * r ^ 2 + b5 * r + 1)"
    by (simp only: mult.commute[of q])
  also have "\<dots> = acklamCentral q"
    unfolding acklamCentral_def Let_def r_def by (rule refl)
  finally show ?thesis unfolding rr .
qed

lemma tail_code:
  "(((((c1 * q + c2) * q + c3) * q + c4) * q + c5) * q + c6) /
      ((((d1 * q + d2) * q + d3) * q + d4) * q + 1) = acklamTail q"
  unfolding acklamTail_def
  by (simp only: horner5[of c1 q c2 c3 c4 c5 c6] horner4[of d1 q d2 d3 d4 1])

lemma getNormInverse_spec: "getNormInverse p = inverseNormalSpec p"
proof -
  have lo: "p_low = 0.02425" by (simp add: p_low_def)
  have hi: "p_high = 0.97575" by (simp add: p_high_def p_low_def)
  have half: "p - 0.5 = p - 1 / 2" by simp
  show ?thesis
    unfolding getNormInverse_def inverseNormalSpec_def Let_def lo hi half central_code
      minus_divide_left[symmetric] tail_code
    by (rule refl)
qed

lemma getChiSquareCriticalValue_spec:
  assumes "1 \<le> df"
  shows "getChiSquareCriticalValue df alpha = criticalValueSpec df alpha"
  using assms
  unfolding getChiSquareCriticalValue_def criticalValueSpec_def Let_def getNormInverse_spec
  by (simp add: power2_eq_square)

text \<open>
  Claim C6. For every \<open>k \<ge> 2\<close> (so every \<open>k \<ge> 3\<close>) and \<open>\<alpha>\<close> in \<open>(0, 1)\<close>, the critical
  value of the chi-square test is the one the specification states, \<open>criticalValueSpec\<close>
  at \<open>df = k - 1\<close>: \<open>z\<^sup>2\<close> with \<open>z\<close> the inverse normal at \<open>1 - \<alpha> / 2\<close> when \<open>df = 1\<close>,
  \<open>- 2 ln \<alpha>\<close> when \<open>df = 2\<close>, and otherwise the Wilson-Hilferty value
  \<open>df (1 - 2 / (9 df) + z\<^sub>p sqrt (2 / (9 df)))\<^sup>3\<close> with \<open>z\<^sub>p\<close> the inverse normal at \<open>1 - \<alpha>\<close>,
  the inverse normal being the three-region rational approximation (below 0.02425,
  above 0.97575, and between). The test reports uniformity exactly when the statistic
  is below the critical value.
\<close>

theorem chi_square_critical_value:
  assumes "2 \<le> k" and "0 < alpha" and "alpha < 1"
  shows "getChiSquareCriticalValue (of_int (k - 1)) alpha =
           criticalValueSpec (of_int (k - 1)) alpha \<and>
         dof (calculateChiSquare numbers k alpha) = k - 1 \<and>
         criticalValue (calculateChiSquare numbers k alpha) =
           criticalValueSpec (of_int (k - 1)) alpha \<and>
         isUniform (calculateChiSquare numbers k alpha) =
           (chiStat (calculateChiSquare numbers k alpha) <
            criticalValue (calculateChiSquare numbers k alpha))"
proof -
  from assms(1) have "(1::real) \<le> of_int (k - 1)" by simp
  then have "getChiSquareCriticalValue (of_int (k - 1)) alpha =
      criticalValueSpec (of_int (k - 1)) alpha"
    by (rule getChiSquareCriticalValue_spec)
  then show ?thesis by (simp add: calculateChiSquare_def Let_def)
qed

text \<open>The theorem at three numbers, one per third of the unit interval, with \<open>k = 3\<close>.\<close>

lemma chi_value:
  "chiStat (calculateChiSquare [1 / 10, 1 / 2, 9 / 10] 3 (1 / 20)) = 0"
  by (simp add: calculateChiSquare_def chiInterval_def Let_def upt_rec)

theorem chi_square_critical_value_witness:
  "(2::int) \<le> 3 \<and> (0::real) < 1 / 20 \<and> (1 / 20 :: real) < 1 \<and>
   criticalValue (calculateChiSquare [1 / 10, 1 / 2, 9 / 10] 3 (1 / 20)) = - 2 * ln (1 / 20) \<and>
   chiStat (calculateChiSquare [1 / 10, 1 / 2, 9 / 10] 3 (1 / 20)) = 0 \<and>
   isUniform (calculateChiSquare [1 / 10, 1 / 2, 9 / 10] 3 (1 / 20))"
proof -
  have pos: "(0::real) < - 2 * ln (1 / 20)" by (simp add: ln_div)
  from chi_square_critical_value [of 3 "1 / 20" "[1 / 10, 1 / 2, 9 / 10]"]
  have c: "criticalValue (calculateChiSquare [1 / 10, 1 / 2, 9 / 10] 3 (1 / 20)) =
        criticalValueSpec 2 (1 / 20)"
    and u: "isUniform (calculateChiSquare [1 / 10, 1 / 2, 9 / 10] 3 (1 / 20)) =
           (chiStat (calculateChiSquare [1 / 10, 1 / 2, 9 / 10] 3 (1 / 20)) <
            criticalValue (calculateChiSquare [1 / 10, 1 / 2, 9 / 10] 3 (1 / 20)))"
    by simp_all
  have s: "criticalValueSpec 2 (1 / 20) = - 2 * ln (1 / 20)"
    by (simp add: criticalValueSpec_def)
  from c s u chi_value pos show ?thesis by simp
qed

lemma foldl_sum_list:
  "foldl (\<lambda>s i. s + f i) a xs = a + (\<Sum>i\<leftarrow>xs. (f i :: real))"
  by (induction xs arbitrary: a) simp_all

lemma sum_list_nth:
  "(\<Sum>i\<leftarrow>[0..<length xs]. g (xs ! i)) = (\<Sum>x\<leftarrow>xs. (g x :: real))"
proof -
  have "map (\<lambda>i. g (xs ! i)) [0..<length xs] = map g (map (\<lambda>i. xs ! i) [0..<length xs])"
    by simp
  also have "\<dots> = map g xs" by (simp only: map_nth)
  finally show ?thesis by simp
qed

lemma dependency_mean:
  "foldl (\<lambda>s i. s + numbers ! i) 0 [0..<length numbers] / real (length numbers) =
     sampleMean numbers"
  unfolding sampleMean_def foldl_sum_list
  using sum_list_nth[of "\<lambda>x. x" numbers] by simp

lemma dependency_variance:
  "(if length numbers > 1
    then foldl (\<lambda>s i. s + (numbers ! i - sampleMean numbers) ^ 2) 0 [0..<length numbers] /
         real (length numbers - 1)
    else 0) = sampleVariance numbers"
  unfolding sampleVariance_def foldl_sum_list
  using sum_list_nth[of "\<lambda>x. (x - sampleMean numbers) ^ 2" numbers] by simp

lemma lagCorrelation_spec:
  "lagCorrelation numbers (sampleMean numbers) (sampleVariance numbers) k =
     \<lparr>lagK = k, corrValue = autocorrelation numbers k\<rparr>"
  unfolding lagCorrelation_def autocorrelation_def Let_def foldl_sum_list by simp

lemma calculateDependency_correlations:
  "correlations (calculateDependency numbers lag alpha) =
     map (\<lambda>k. \<lparr>lagK = k, corrValue = autocorrelation numbers k\<rparr>) [1..<length numbers]"
  unfolding calculateDependency_def Let_def dependency_mean dependency_variance
  by (simp add: lagCorrelation_spec)

lemma calculateDependency_isIndependent:
  "isIndependent (calculateDependency numbers lag alpha)"
  by (simp add: calculateDependency_def Let_def)

lemma sqrt_9: "sqrt 9 = 3"
proof -
  have "sqrt 9 = sqrt (3\<^sup>2)" by simp
  also have "\<dots> = 3" by (simp add: real_sqrt_abs del: power2_eq_square)
  finally show ?thesis .
qed

lemma alternating_mean: "sampleMean [0, 1, 0, 1, 0, 1, 0, 1, 0] = 4 / 9"
  by (simp add: sampleMean_def)

lemma alternating_variance: "sampleVariance [0, 1, 0, 1, 0, 1, 0, 1, 0] = 5 / 18"
  by (simp add: sampleVariance_def alternating_mean power2_eq_square)

lemma alternating_correlation: "autocorrelation [0, 1, 0, 1, 0, 1, 0, 1, 0] 1 = - 8 / 9"
  by (simp add: autocorrelation_def alternating_mean alternating_variance upt_rec)

lemma alternating_z: "zStatistic [0, 1, 0, 1, 0, 1, 0, 1, 0] 1 = - 8 / 3"
  using alternating_correlation by (simp add: zStatistic_def sqrt_9)

text \<open>
  Claim C7 at the nine alternating numbers 0, 1, 0, 1, 0, 1, 0, 1, 0 with \<open>\<alpha> = 0.05\<close>:
  the test returns eight correlations, the first the lag-1 correlation \<open>r\<^sub>1 = - 8 / 9\<close>,
  so that \<open>Z\<^sub>1 = r\<^sub>1 / (1 / sqrt 9) = - 8 / 3\<close> lies beyond the critical value 1.96 and
  lag 1 is significant, yet the overall decision it reports is independence.
\<close>

theorem dependency_reports_independence:
  "length (correlations (calculateDependency [0, 1, 0, 1, 0, 1, 0, 1, 0] 1 0.05)) = 8 \<and>
   correlations (calculateDependency [0, 1, 0, 1, 0, 1, 0, 1, 0] 1 0.05) ! 0 =
     \<lparr>lagK = 1, corrValue = - 8 / 9\<rparr> \<and>
   zStatistic [0, 1, 0, 1, 0, 1, 0, 1, 0] 1 =
     corrValue (correlations (calculateDependency [0, 1, 0, 1, 0, 1, 0, 1, 0] 1 0.05) ! 0) /
       (1 / sqrt 9) \<and>
   zStatistic [0, 1, 0, 1, 0, 1, 0, 1, 0] 1 = - 8 / 3 \<and>
   \<bar>zStatistic [0, 1, 0, 1, 0, 1, 0, 1, 0] 1\<bar> > zCritical_0_05 \<and>
   isIndependent (calculateDependency [0, 1, 0, 1, 0, 1, 0, 1, 0] 1 0.05)"
proof -
  have c: "correlations (calculateDependency [0, 1, 0, 1, 0, 1, 0, 1, 0] 1 0.05) ! 0 =
     \<lparr>lagK = 1, corrValue = - 8 / 9\<rparr>"
    unfolding calculateDependency_correlations
    using alternating_correlation by (simp add: upt_rec)
  have l: "length (correlations (calculateDependency [0, 1, 0, 1, 0, 1, 0, 1, 0] 1 0.05)) = 8"
    by (simp add: calculateDependency_correlations)
  have z: "zStatistic [0, 1, 0, 1, 0, 1, 0, 1, 0] 1 =
     corrValue (correlations (calculateDependency [0, 1, 0, 1, 0, 1, 0, 1, 0] 1 0.05) ! 0) /
       (1 / sqrt 9)"
    unfolding c using alternating_z by (simp add: sqrt_9)
  have g: "\<bar>zStatistic [0, 1, 0, 1, 0, 1, 0, 1, 0] 1\<bar> > zCritical_0_05"
    using alternating_z by (simp add: zCritical_0_05_def)
  from l c z alternating_z g calculateDependency_isIndependent show ?thesis by blast
qed

end
